theory Spec2Isabelle
  imports Main "HOL-Library.Word"
begin

section \<open>The BL600 control daemon of \<^verbatim>\<open>src/modules/mobile/main.cpp\<close>\<close>

text \<open>
  A shallow embedding of the daemon's control program: the firmware version gate
  (\<^verbatim>\<open>parse_uint\<close>, \<^verbatim>\<open>version_firmware_parse\<close>, \<^verbatim>\<open>version_firmware_compare_le\<close>,
  \<^verbatim>\<open>version_firmware_check\<close>), the serial handle (\<^verbatim>\<open>open_serial\<close>), the AT batch
  (\<^verbatim>\<open>exec_all_AT\<close>), the background task (\<^verbatim>\<open>daemon\<close>) and the command dispatch
  (\<^verbatim>\<open>main\<close>).

  The target is NuttX on a 32-bit ARM: \<^verbatim>\<open>unsigned\<close>, \<^verbatim>\<open>unsigned long\<close> and
  \<^verbatim>\<open>uint32_t\<close> are 32-bit words, \<^verbatim>\<open>uint8_t\<close> is an 8-bit word.
\<close>

type_synonym u8 = "8 word"
type_synonym u32 = "32 word"

subsection \<open>C strings and the C library functions the program calls\<close>

text \<open>
  A C string is the list of its characters before the terminating NUL. A pointer into a
  string is an offset from its start; the null pointer is \<open>None\<close>.
\<close>

definition TAB :: char where "TAB = CHR 0x09"
definition LF :: char where "LF = CHR 0x0A"
definition VT :: char where "VT = CHR 0x0B"
definition FF :: char where "FF = CHR 0x0C"
definition CR :: char where "CR = CHR 0x0D"
definition NUL :: char where "NUL = CHR 0x00"

text \<open>The characters of a buffer up to its first NUL: what \<^verbatim>\<open>strstr\<close> and
  \<^verbatim>\<open>strtok_r\<close> read of it.\<close>

definition c_str :: "string \<Rightarrow> string" where
  "c_str buf = takeWhile (\<lambda>c. c \<noteq> NUL) buf"

text \<open>\<^verbatim>\<open>isspace\<close> in the C locale.\<close>

definition isspace :: "char \<Rightarrow> bool" where
  "isspace c = (c = CHR '' '' \<or> c = TAB \<or> c = LF \<or> c = VT \<or> c = FF \<or> c = CR)"

text \<open>The value of a character as a digit: \<^verbatim>\<open>0-9\<close>, then the letters of either case
  from 10 on.\<close>

definition digit_val :: "char \<Rightarrow> nat option" where
  "digit_val c =
     (let n = (of_char c :: nat) in
      if 48 \<le> n \<and> n \<le> 57 then Some (n - 48)
      else if 97 \<le> n \<and> n \<le> 122 then Some (n - 87)
      else if 65 \<le> n \<and> n \<le> 90 then Some (n - 55)
      else None)"

definition is_digit :: "nat \<Rightarrow> char \<Rightarrow> bool" where
  "is_digit base c = (case digit_val c of None \<Rightarrow> False | Some k \<Rightarrow> k < base)"

definition ULONG_MAX :: nat where
  "ULONG_MAX = 4294967295"

text \<open>
  \<^verbatim>\<open>strtoul(s, &p, base)\<close> as ISO C defines it (7.22.1.4), for a 32-bit
  \<^verbatim>\<open>unsigned long\<close>; the C library is not part of the sources. White space is skipped,
  then an optional sign, then for base 0 or 16 an optional \<^verbatim>\<open>0x\<close> (only when a
  hexadecimal digit follows it); base 0 is octal after a leading \<^verbatim>\<open>0\<close> and decimal
  otherwise. The digits of the base are consumed as far as they go. The result is the
  value, negated in the unsigned type after a minus sign, or \<^verbatim>\<open>ULONG_MAX\<close> when the
  digits exceed the type; and the end pointer, as an offset into \<open>s\<close>. With no digit
  there is no conversion: the value is 0 and the end pointer is \<open>s\<close> itself.
\<close>

definition strtoul :: "string \<Rightarrow> nat \<Rightarrow> u32 \<times> nat" where
  "strtoul s base =
     (let s1 = dropWhile isspace s;
          neg = (case s1 of [] \<Rightarrow> False | c # _ \<Rightarrow> c = CHR ''-'');
          s2 = (case s1 of [] \<Rightarrow> s1 | c # r \<Rightarrow> if c = CHR ''-'' \<or> c = CHR ''+'' then r else s1);
          hex = ((base = 0 \<or> base = 16) \<and>
                 (case s2 of z # x # h # _ \<Rightarrow>
                    z = CHR ''0'' \<and> (x = CHR ''x'' \<or> x = CHR ''X'') \<and> is_digit 16 h
                  | _ \<Rightarrow> False));
          b = (if hex then 16
               else if base = 0 then (case s2 of [] \<Rightarrow> 10 | c # _ \<Rightarrow> if c = CHR ''0'' then 8 else 10)
               else base);
          s3 = (if hex then drop 2 s2 else s2);
          ds = takeWhile (is_digit b) s3;
          rest = dropWhile (is_digit b) s3;
          acc = foldl (\<lambda>a c. a * b + (case digit_val c of None \<Rightarrow> 0 | Some k \<Rightarrow> k)) 0 ds
      in if ds = [] then (0, 0)
         else (if ULONG_MAX < acc then of_nat ULONG_MAX
               else if neg then - of_nat acc
               else of_nat acc,
               length s - length rest))"

text \<open>
  \<^verbatim>\<open>strtok_r\<close> (POSIX), on the position the scan has reached (the string itself in the
  first call, the saved pointer afterwards): the delimiters in front are skipped; at the
  end of the string there is no token; otherwise the token runs up to the next delimiter,
  which is overwritten by NUL, and the saved pointer is set behind it.
\<close>

definition strtok_r :: "string \<Rightarrow> string \<Rightarrow> (string \<times> string) option" where
  "strtok_r s sep =
     (let s1 = dropWhile (\<lambda>c. c \<in> set sep) s
      in if s1 = [] then None
         else Some (takeWhile (\<lambda>c. c \<notin> set sep) s1,
                    drop 1 (dropWhile (\<lambda>c. c \<notin> set sep) s1)))"

text \<open>\<^verbatim>\<open>strstr\<close>: the offset of the first occurrence of the needle, if any.\<close>

fun strstr :: "string \<Rightarrow> string \<Rightarrow> nat option" where
  "strstr [] needle = (if needle = [] then Some 0 else None)"
| "strstr (c # cs) needle =
     (if take (length needle) (c # cs) = needle then Some 0
      else map_option Suc (strstr cs needle))"

subsection \<open>The firmware version gate\<close>

text \<open>
  \<^verbatim>\<open>parse_uint(s, n, tail)\<close>: \<open>n\<close> is assigned whatever \<^verbatim>\<open>strtoul\<close> returns, converted
  or not; the result tells whether the end pointer moved.
\<close>

definition parse_uint_tail :: "string \<Rightarrow> bool \<times> u32 \<times> nat" where
  "parse_uint_tail s = (let (n, p) = strtoul s 0 in (p \<noteq> 0, n, p))"

text \<open>
  \<^verbatim>\<open>parse_uint(s, n)\<close>: the whole string has to be consumed (\<^verbatim>\<open>*tail == '\0'\<close>). The
  debug line it writes on failure is not modelled.
\<close>

definition parse_uint :: "string \<Rightarrow> bool \<times> u32" where
  "parse_uint s = (let (moved, n, tail) = parse_uint_tail s in (moved \<and> tail = length s, n))"

definition sep :: string where
  "sep = [CHR ''.'', LF, CR]"

lemma strtok_r_shorter:
  assumes "strtok_r s ds = Some (tok, rest)"
  shows "length rest < length s"
proof -
  let ?s1 = "dropWhile (\<lambda>c. c \<in> set ds) s"
  from assms have ne: "?s1 \<noteq> []" and rest: "rest = drop 1 (dropWhile (\<lambda>c. c \<notin> set ds) ?s1)"
    by (auto simp: strtok_r_def Let_def split: if_splits)
  have "length rest \<le> length ?s1 - 1"
    unfolding rest by (simp add: length_dropWhile_le diff_le_mono)
  moreover have "0 < length ?s1" using ne by simp
  moreover have "length ?s1 \<le> length s" by (rule length_dropWhile_le)
  ultimately show ?thesis by linarith
qed

text \<open>
  \<^verbatim>\<open>version_firmware_parse\<close>. The loop
  \<^verbatim>\<open>n = strtok_r(s, ..); while (n != nullptr) { ..; n = strtok_r(nullptr, ..); }\<close>
  is the recursion below on the saved pointer: each round takes the next token, stores
  what \<^verbatim>\<open>parse_uint\<close> assigned in \<open>v[i]\<close>, fails if that token did not parse, and
  succeeds as soon as the fourth one did. The result is the returned flag with the
  array as the call leaves it.
\<close>

function version_firmware_parse_loop :: "string \<Rightarrow> nat \<Rightarrow> u32 list \<Rightarrow> bool \<times> u32 list" where
  "version_firmware_parse_loop tail i v =
     (case strtok_r tail sep of
        None \<Rightarrow> (False, v)
      | Some (n, tail') \<Rightarrow>
          (case parse_uint n of
             (ok, x) \<Rightarrow>
               if \<not> ok then (False, v[i := x])
               else if Suc i = 4 then (True, v[i := x])
               else version_firmware_parse_loop tail' (Suc i) (v[i := x])))"
  by pat_completeness auto
termination
  by (relation "measure (\<lambda>(tail, i, v). length tail)") (auto dest: strtok_r_shorter)

declare version_firmware_parse_loop.simps [simp del]

definition version_firmware_parse :: "string \<Rightarrow> u32 list \<Rightarrow> bool \<times> u32 list" where
  "version_firmware_parse destroyed_s v = version_firmware_parse_loop destroyed_s 0 v"

text \<open>
  \<^verbatim>\<open>version_firmware_compare_le\<close>: the \<^verbatim>\<open>uint8_t\<close> on the left of each comparison is
  promoted and converted to \<^verbatim>\<open>unsigned\<close>, which keeps its value, and the comparison is
  the unsigned one.
\<close>

definition version_firmware_compare_le :: "u8 list \<Rightarrow> u32 list \<Rightarrow> bool" where
  "version_firmware_compare_le min_v ver =
     (ucast (min_v ! 0) < ver ! 0
      \<or> (ucast (min_v ! 0) = ver ! 0 \<and> (
          ucast (min_v ! 1) < ver ! 1
          \<or> (ucast (min_v ! 1) = ver ! 1 \<and> (
              ucast (min_v ! 2) < ver ! 2
              \<or> (ucast (min_v ! 2) = ver ! 2 \<and> (
                  ucast (min_v ! 3) \<le> ver ! 3
              ))
          ))
      )))"


text \<open>
  The tokens of a string as the specification words them: the string is cut at every
  delimiter, and the pieces that are empty (between two delimiters in a row, or at either
  end) are no tokens.
\<close>

fun split_on :: "(char \<Rightarrow> bool) \<Rightarrow> string \<Rightarrow> string list" where
  "split_on P [] = [[]]"
| "split_on P (c # cs) =
     (if P c then [] # split_on P cs
      else (c # hd (split_on P cs)) # tl (split_on P cs))"

definition tokens :: "string \<Rightarrow> string list" where
  "tokens s = filter (\<lambda>t. t \<noteq> []) (split_on (\<lambda>c. c \<in> set sep) s)"

text \<open>What the parse loop does to a list of tokens taken one after the other.\<close>

fun parse_tokens :: "string list \<Rightarrow> nat \<Rightarrow> u32 list \<Rightarrow> bool \<times> u32 list" where
  "parse_tokens [] i v = (False, v)"
| "parse_tokens (t # ts) i v =
     (case parse_uint t of
        (ok, x) \<Rightarrow>
          if \<not> ok then (False, v[i := x])
          else if Suc i = 4 then (True, v[i := x])
          else parse_tokens ts (Suc i) (v[i := x]))"

subsection \<open>The machine, the trace and the calls out of the program\<close>

text \<open>
  The program's state is its two flags, \<^verbatim>\<open>errno\<close>, the rest of the machine (the
  devices, the descriptor table, the scheduler and its tasks), which stays opaque, and a
  trace of what the program printed and which calls it made out of this file.
\<close>

datatype arg = Arg_s string | Arg_i int | Arg_u nat

datatype event =
    Printf string "arg list"
  | Fprintf_stderr string "arg list"
  | Perror string int
  | Close int
  | Exec_AT string int
  | Task_spawn string "string list" int
  | Process_one_command int
  | Mode_AT
  | Mode_default

record 'x state =
  daemon_should_run :: bool
  daemon_running :: bool
  errno :: int
  machine :: 'x
  trace :: "event list"

definition emit :: "event \<Rightarrow> 'x state \<Rightarrow> 'x state" where
  "emit e st = st\<lparr>trace := trace st @ [e]\<rparr>"

text \<open>
  The functions this file calls and does not define are parameters. Each acts on
  \<^verbatim>\<open>errno\<close> and the opaque machine only: none of them can reach the two flags, which are
  static to this file. \<open>memory_behind\<close> is no function of the program: it reads, from the
  machine, the bytes that lie in memory right behind the 32-byte array of
  \<^verbatim>\<open>version_firmware_check\<close>, as far as the first NUL there.
\<close>

type_synonym 'x os = "int \<times> 'x"

record 'x externals =
  tty_open :: "string \<Rightarrow> 'x os \<Rightarrow> int \<times> 'x os"
  tty_set_speed :: "int \<Rightarrow> nat \<Rightarrow> 'x os \<Rightarrow> bool \<times> 'x os"
  tty_use_ctsrts :: "int \<Rightarrow> 'x os \<Rightarrow> bool \<times> 'x os"
  sys_close :: "int \<Rightarrow> 'x os \<Rightarrow> 'x os"
  dbg_perror :: "string \<Rightarrow> string \<Rightarrow> 'x os \<Rightarrow> 'x os"
  exec_AT_verbose :: "int \<Rightarrow> string \<Rightarrow> string \<Rightarrow> nat \<Rightarrow> 'x os \<Rightarrow> (int \<times> string) \<times> 'x os"
  task_spawn_cmd :: "string \<Rightarrow> string list \<Rightarrow> 'x os \<Rightarrow> int \<times> 'x os"
  process_one_command :: "int \<Rightarrow> 'x os \<Rightarrow> 'x os"
  mode_AT :: "'x os \<Rightarrow> 'x os"
  mode_default :: "'x os \<Rightarrow> 'x os"
  memory_behind :: "'x \<Rightarrow> string"

definition call :: "('x os \<Rightarrow> 'r \<times> 'x os) \<Rightarrow> 'x state \<Rightarrow> 'r \<times> 'x state" where
  "call f st =
     (case f (errno st, machine st) of
        (r, e, m) \<Rightarrow> (r, st\<lparr>errno := e, machine := m\<rparr>))"

definition call_void :: "('x os \<Rightarrow> 'x os) \<Rightarrow> 'x state \<Rightarrow> 'x state" where
  "call_void f st =
     (case f (errno st, machine st) of
        (e, m) \<Rightarrow> st\<lparr>errno := e, machine := m\<rparr>)"

subsection \<open>The serial handle\<close>

text \<open>
  Modelled from the spec: \<^verbatim>\<open>unique_file\<close> (\<^verbatim>\<open>unique_file.hpp\<close>) is not among the
  sources. The specification's scoped handle owns one descriptor, is Open or Closed, never
  exposes a usable descriptor once Closed, closes idempotently and releases the
  descriptor when its scope ends. A Closed handle holds -1.
\<close>

record unique_file =
  fd :: int

definition fileno :: "unique_file \<Rightarrow> int" where
  "fileno d = fd d"

definition close_file :: "'x externals \<Rightarrow> unique_file \<Rightarrow> 'x state \<Rightarrow> unique_file \<times> 'x state" where
  "close_file env d st =
     (if fd d = - 1 then (d, st)
      else (d\<lparr>fd := - 1\<rparr>, call_void (sys_close env (fd d)) (emit (Close (fd d)) st)))"

definition unique_file_destroy :: "'x externals \<Rightarrow> unique_file \<Rightarrow> 'x state \<Rightarrow> 'x state" where
  "unique_file_destroy env d st = snd (close_file env d st)"

text \<open>The \<^verbatim>\<open>termios\<close> constant for 9600 baud, which NuttX defines as the rate itself.\<close>

definition B9600 :: nat where
  "B9600 = 9600"

text \<open>
  \<^verbatim>\<open>open_serial\<close>. The conjunction is evaluated left to right and stops at the first
  step that fails. On failure \<^verbatim>\<open>errno\<close> is read, the debug line is written, the handle
  is closed and \<^verbatim>\<open>errno\<close> is written back.
\<close>

definition open_serial :: "'x externals \<Rightarrow> string \<Rightarrow> 'x state \<Rightarrow> unique_file \<times> 'x state" where
  "open_serial env name st =
     (case call (tty_open env name) st of
        (fd0, st1) \<Rightarrow>
          (let d = \<lparr>fd = fd0\<rparr> in
           case (if fileno d = - 1 then (False, st1)
                 else (case call (tty_set_speed env (fileno d) B9600) st1 of
                         (speed_ok, st2) \<Rightarrow>
                           if \<not> speed_ok then (False, st2)
                           else call (tty_use_ctsrts env (fileno d)) st2)) of
             (ok, st3) \<Rightarrow>
               if \<not> ok then
                 (let true_errno = errno st3;
                      st4 = call_void (dbg_perror env ''open_serial('%s')'' name) st3
                  in case close_file env d st4 of
                       (d', st5) \<Rightarrow> (d', st5\<lparr>errno := true_errno\<rparr>))
               else (d, st3)))"


subsection \<open>The background task\<close>

text \<open>
  \<^verbatim>\<open>daemon\<close> runs beside the foreground, and its loop may never end, so it is a step
  function on the task's control point and the state. The control point carries the
  task's local handle. The steps are: open the device; set \<^verbatim>\<open>daemon_running\<close>; one
  test of \<^verbatim>\<open>daemon_should_run\<close> with either one call of \<^verbatim>\<open>process_one_command\<close>
  or the way out, where the handle's scope ends. \<^verbatim>\<open>argv[0]\<close> is \<open>name\<close> and
  \<^verbatim>\<open>argv[1]\<close> is \<open>tty\<close>. The logging and timeout wrappers around the descriptor and
  the two local objects handed to \<^verbatim>\<open>process_one_command\<close> are part of the opaque
  machine.
\<close>

datatype daemon_pc = Entry | Opened unique_file | Looping unique_file | Returned int

fun daemon_step ::
  "'x externals \<Rightarrow> string \<Rightarrow> string \<Rightarrow> daemon_pc \<times> 'x state \<Rightarrow> daemon_pc \<times> 'x state"
where
  "daemon_step env name tty (Entry, st) =
     (let st1 = emit (Fprintf_stderr ''%s starting...\<newline>'' [Arg_s name]) st
      in case open_serial env tty st1 of
           (d, st2) \<Rightarrow>
             if fileno d = - 1
             then (Returned 1, unique_file_destroy env d (emit (Perror name (errno st2)) st2))
             else (Opened d, st2))"
| "daemon_step env name tty (Opened d, st) =
     (Looping d,
      emit (Fprintf_stderr ''%s started.\<newline>'' [Arg_s name]) (st\<lparr>daemon_running := True\<rparr>))"
| "daemon_step env name tty (Looping d, st) =
     (if daemon_should_run st
      then (Looping d,
            emit (Process_one_command (fileno d))
              (call_void (process_one_command env (fileno d)) st))
      else (let st1 = emit (Fprintf_stderr ''%s stopped.\<newline>'' [Arg_s name]) st;
                st2 = st1\<lparr>daemon_running := False\<rparr>
            in (Returned 0, unique_file_destroy env d st2)))"
| "daemon_step env name tty (Returned r, st) = (Returned r, st)"

text \<open>
  The foreground is the only other writer, and of \<^verbatim>\<open>daemon_should_run\<close> only. A
  schedule says, before each step of the task, what the foreground has written to the
  flag since the step before, if anything.
\<close>

fun foreground_write :: "bool option \<Rightarrow> 'x state \<Rightarrow> 'x state" where
  "foreground_write None st = st"
| "foreground_write (Some b) st = st\<lparr>daemon_should_run := b\<rparr>"

fun daemon_run ::
  "'x externals \<Rightarrow> string \<Rightarrow> string \<Rightarrow> bool option list \<Rightarrow> daemon_pc \<times> 'x state
     \<Rightarrow> daemon_pc \<times> 'x state"
where
  "daemon_run env name tty [] cfg = cfg"
| "daemon_run env name tty (w # ws) cfg =
     daemon_run env name tty ws
       (daemon_step env name tty (fst cfg, foreground_write w (snd cfg)))"

subsection \<open>Maintenance commands\<close>

definition maintenance_allowed :: "'x state \<Rightarrow> bool \<times> 'x state" where
  "maintenance_allowed st =
     (\<not> daemon_running st,
      if daemon_running st then emit (Fprintf_stderr ''Stop the daemon first.\<newline>'' []) st
      else st)"

text \<open>
  The loop of \<^verbatim>\<open>exec_all_AT\<close>, from index \<open>i\<close> on the arguments still to run. The
  trace records each command with what \<^verbatim>\<open>exec_AT_verbose\<close> returned for it.
\<close>

fun exec_all_AT_loop ::
  "'x externals \<Rightarrow> unique_file \<Rightarrow> int \<Rightarrow> string list \<Rightarrow> string \<Rightarrow> nat \<Rightarrow> 'x state
     \<Rightarrow> (bool \<times> string) \<times> 'x state"
where
  "exec_all_AT_loop env dev i [] buf sz st = ((True, buf), st)"
| "exec_all_AT_loop env dev i (a # rest) buf sz st =
     (let st1 = emit (Printf ''%i# '' [Arg_i i]) st
      in case call (exec_AT_verbose env (fileno dev) a buf sz) st1 of
           ((r, buf'), st2) \<Rightarrow>
             (let st3 = emit (Exec_AT a r) st2
              in if r = - 1 then ((False, buf'), st3)
                 else exec_all_AT_loop env dev (i + 1) rest buf' sz st3))"

text \<open>
  \<^verbatim>\<open>exec_all_AT(devname, argc, arg, buf, size)\<close>; \<open>argc\<close> is the length of the list.
  The handle's scope ends with the function, on every way out after it was opened.
\<close>

definition exec_all_AT ::
  "'x externals \<Rightarrow> string \<Rightarrow> string list \<Rightarrow> string \<Rightarrow> nat \<Rightarrow> 'x state
     \<Rightarrow> (bool \<times> string) \<times> 'x state"
where
  "exec_all_AT env devname arg buf sz st =
     (case maintenance_allowed st of
        (allowed, st1) \<Rightarrow>
          if \<not> allowed then ((False, buf), st1)
          else (case open_serial env devname st1 of
                  (serial, st2) \<Rightarrow>
                    if fileno serial = - 1
                    then ((False, buf), unique_file_destroy env serial st2)
                    else (case exec_all_AT_loop env serial 0 arg buf sz st2 of
                            (res, st3) \<Rightarrow> (res, unique_file_destroy env serial st3))))"

text \<open>\<^verbatim>\<open>exec_all_AT(devname, argc, arg)\<close>, with its own zeroed buffer of 32 bytes.\<close>

definition exec_all_AT_3 :: "'x externals \<Rightarrow> string \<Rightarrow> string list \<Rightarrow> 'x state \<Rightarrow> bool \<times> 'x state" where
  "exec_all_AT_3 env devname arg st =
     (case exec_all_AT env devname arg (replicate 32 NUL) 32 st of
        ((ok, buf), st1) \<Rightarrow> (ok, st1))"

subsection \<open>The firmware check\<close>

definition BL600_VERSION_FIRMWARE_MIN :: "u8 list" where
  "BL600_VERSION_FIRMWARE_MIN = [1, 8, 88, 0]"

definition prefix :: string where
  "prefix = ''10'' @ [TAB] @ ''3'' @ [TAB]"

definition print_versions :: "u8 list \<Rightarrow> u32 list \<Rightarrow> 'x state \<Rightarrow> 'x state" where
  "print_versions m v4 st =
     emit (Printf ''modile's version: %u %u %u %u\<newline>''
             [Arg_u (unat (v4 ! 0)), Arg_u (unat (v4 ! 1)), Arg_u (unat (v4 ! 2)), Arg_u (unat (v4 ! 3))])
       (emit (Printf ''required version: %u %u %u %u\<newline>''
                [Arg_u (unat (m ! 0)), Arg_u (unat (m ! 1)), Arg_u (unat (m ! 2)), Arg_u (unat (m ! 3))])
          st)"

text \<open>
  \<^verbatim>\<open>version_firmware_check\<close>. \<open>v4\<close> is the array as the stack holds it when the
  function is entered: it is not initialised, and both versions are printed whether the
  parse succeeded or not. The three \<^verbatim>\<open>if (ok)\<close> blocks in a row are the nesting below.

  \<^verbatim>\<open>exec_AT_verbose\<close> is handed the whole size of the array, so it may leave 32 bytes
  with no NUL among them; \<^verbatim>\<open>strstr\<close> and \<^verbatim>\<open>strtok_r\<close> read from the start of the
  array to the first NUL, wherever it is. The response they see is therefore the C
  string of the array (\<open>buf\<close>, its 32 bytes as the query left them) followed by the
  memory behind it. What \<^verbatim>\<open>strtok_r\<close> writes behind the array is not modelled, nor
  is the debug line.
\<close>

definition version_firmware_check ::
  "'x externals \<Rightarrow> string \<Rightarrow> u32 list \<Rightarrow> 'x state \<Rightarrow> bool \<times> 'x state"
where
  "version_firmware_check env devname v4 st =
     (case exec_all_AT env devname [''AT I 3''] (replicate 32 NUL) 32 st of
        ((ok, buf), st1) \<Rightarrow>
          if \<not> ok then (False, st1)
          else (case strstr (c_str (buf @ memory_behind env (machine st1))) prefix of
                  None \<Rightarrow> (False, st1)
                | Some p \<Rightarrow>
                    (case version_firmware_parse
                            (drop (p + length prefix) (c_str (buf @ memory_behind env (machine st1))))
                            v4 of
                       (parsed, v4') \<Rightarrow>
                         (let st2 = print_versions BL600_VERSION_FIRMWARE_MIN v4' st1
                          in if \<not> parsed then (False, st2)
                             else if version_firmware_compare_le BL600_VERSION_FIRMWARE_MIN v4'
                             then (True, emit (Printf ''ready to work.\<newline>'' []) st2)
                             else (False, emit (Printf ''upgrade required.\<newline>'' []) st2)))))"

subsection \<open>The command dispatch\<close>

definition usage :: "string \<Rightarrow> 'x state \<Rightarrow> 'x state" where
  "usage name st =
     foldl (\<lambda>s e. emit e s) st
       [Fprintf_stderr ''Usage:\<newline>'' [],
        Fprintf_stderr (TAB # ''%s start TTY\<newline>'') [Arg_s name],
        Fprintf_stderr (TAB # ''%s stop\<newline>'') [Arg_s name],
        Fprintf_stderr (TAB # ''%s status\<newline>'') [Arg_s name],
        Fprintf_stderr (TAB # ''%s mode at|default\<newline>'') [Arg_s name],
        Fprintf_stderr (TAB # ''%s at TTY command [command...]\<newline>'') [Arg_s name],
        Fprintf_stderr (TAB # ''%s firmware-version TTY\<newline>'') [Arg_s name],
        Fprintf_stderr ''\<newline>'' []]"

text \<open>
  \<^verbatim>\<open>main\<close>. \<^verbatim>\<open>argv[0]\<close> is \<open>prog\<close> and \<open>args\<close> are the arguments behind it, so
  \<^verbatim>\<open>argc\<close> is one more than their number. \<open>v4\<close> is what the stack holds where
  \<^verbatim>\<open>version_firmware_check\<close> has its array. \<^verbatim>\<open>task_spawn_cmd\<close> is handed the name,
  the entry point \<^verbatim>\<open>daemon\<close> and \<^verbatim>\<open>argv + 2\<close>; the task it starts runs in the opaque
  machine.
\<close>

definition main :: "'x externals \<Rightarrow> string \<Rightarrow> string list \<Rightarrow> u32 list \<Rightarrow> 'x state \<Rightarrow> int \<times> 'x state" where
  "main env prog args v4 st =
     (let argc = 1 + length args in
      if argc < 2 then (1, usage prog st)
      else if argc = 3 \<and> args ! 0 = ''start'' then
        (if daemon_running st
         then (1, emit (Fprintf_stderr ''%s is already running.\<newline>'' [Arg_s prog]) st)
         else (let st1 = st\<lparr>daemon_should_run := True\<rparr>
               in case call (task_spawn_cmd env prog (drop 1 args)) st1 of
                    (r, st2) \<Rightarrow>
                      (let st3 = emit (Task_spawn prog (drop 1 args) r) st2
                       in if r = - 1 then (- 1, emit (Perror ''task_spawn_cmd'' (errno st3)) st3)
                          else (0, st3))))
      else if argc = 2 \<and> args ! 0 = ''status'' then
        (let st1 = emit (if daemon_should_run st then Printf ''%s should run.\<newline>'' [Arg_s prog]
                         else Printf ''%s should NOT run.\<newline>'' [Arg_s prog]) st;
             st2 = emit (if daemon_running st then Printf ''%s is running.\<newline>'' [Arg_s prog]
                         else Printf ''%s is NOT running.\<newline>'' [Arg_s prog]) st1
         in (0, st2))
      else if argc = 2 \<and> args ! 0 = ''stop'' then
        (if \<not> daemon_running st
         then (1, emit (Fprintf_stderr ''%s is NOT running.\<newline>'' [Arg_s prog]) st)
         else (0, st\<lparr>daemon_should_run := False\<rparr>))
      else if argc = 3 \<and> args ! 0 = ''mode'' then
        (case maintenance_allowed st of
           (allowed, st1) \<Rightarrow>
             if \<not> allowed then (1, st1)
             else if args ! 1 = ''at'' then (0, emit Mode_AT (call_void (mode_AT env) st1))
             else if args ! 1 = ''default'' then (0, emit Mode_default (call_void (mode_default env) st1))
             else (1, usage prog st1))
      else if argc > 3 \<and> args ! 0 = ''at'' then
        (case maintenance_allowed st of
           (allowed, st1) \<Rightarrow>
             if \<not> allowed then (1, st1)
             else (case exec_all_AT_3 env (args ! 1) (drop 2 args) st1 of
                     (ok, st2) \<Rightarrow> if \<not> ok then (1, st2) else (0, st2)))
      else if (argc = 3 \<or> argc = 4) \<and> args ! 0 = ''firmware-version'' then
        (case maintenance_allowed st of
           (allowed, st1) \<Rightarrow>
             if \<not> allowed then (1, st1)
             else (case version_firmware_check env (args ! 1) v4 st1 of
                     (ok, st2) \<Rightarrow> if \<not> ok then (1, st2) else (0, st2)))
      else (1, usage prog st))"


text \<open>
  The observation the batch claims are stated on: the part of the trace that a batch
  writes which runs the commands \<open>cs\<close> from index \<open>i\<close> on and gets the results \<open>rs\<close>
  for them, as many commands as there are results.
\<close>

fun batch_trace :: "int \<Rightarrow> string list \<Rightarrow> int list \<Rightarrow> event list" where
  "batch_trace i (c # cs) (r # rs) =
     Printf ''%i# '' [Arg_i i] # Exec_AT c r # batch_trace (i + 1) cs rs"
| "batch_trace i cs rs = []"

text \<open>The events of a trace that a batch writes: the indices and the commands.\<close>

fun is_batch_event :: "event \<Rightarrow> bool" where
  "is_batch_event (Exec_AT c r) = True"
| "is_batch_event (Printf fmt args) = (fmt = ''%i# '')"
| "is_batch_event e = False"

definition batch_events :: "event list \<Rightarrow> event list" where
  "batch_events tr = filter is_batch_event tr"

text \<open>
  What holds of the task at each control point: \<^verbatim>\<open>daemon_running\<close> is set in the loop
  and nowhere else, and the handle of the task is open from the successful
  \<^verbatim>\<open>open_serial\<close> on.
\<close>

definition daemon_inv :: "daemon_pc \<times> 'x state \<Rightarrow> bool" where
  "daemon_inv cfg =
     (case fst cfg of
        Entry \<Rightarrow> \<not> daemon_running (snd cfg)
      | Opened d \<Rightarrow> \<not> daemon_running (snd cfg) \<and> fileno d \<noteq> - 1
      | Looping d \<Rightarrow> daemon_running (snd cfg) \<and> fileno d \<noteq> - 1
      | Returned r \<Rightarrow> \<not> daemon_running (snd cfg))"

subsection \<open>A concrete machine\<close>

text \<open>
  A machine for evaluating the model: the opaque part counts the calls that reach the
  device. \<^verbatim>\<open>tty_open\<close> returns \<open>fd0\<close>, the two configuration steps succeed or fail as
  told and leave their own error code, \<^verbatim>\<open>close\<close> and the debug line overwrite
  \<^verbatim>\<open>errno\<close>, \<^verbatim>\<open>exec_AT_verbose\<close> answers by \<open>response\<close>, and \<^verbatim>\<open>task_spawn_cmd\<close>
  returns \<open>spawned\<close>. The memory behind the array of \<^verbatim>\<open>version_firmware_check\<close> holds
  \<^verbatim>\<open>9.9.9.9\<close> before its first NUL.
\<close>

definition test_env :: "int \<Rightarrow> bool \<Rightarrow> bool \<Rightarrow> (string \<Rightarrow> int \<times> string) \<Rightarrow> int \<Rightarrow> nat externals" where
  "test_env fd0 speed_ok cts_ok response spawned =
     \<lparr>tty_open = (\<lambda>name (e, m). (fd0, (if fd0 = - 1 then 2 else e, m))),
      tty_set_speed = (\<lambda>fd b (e, m). (speed_ok, (if speed_ok then e else 25, m))),
      tty_use_ctsrts = (\<lambda>fd (e, m). (cts_ok, (if cts_ok then e else 22, m))),
      sys_close = (\<lambda>fd (e, m). (9, m)),
      dbg_perror = (\<lambda>fmt a (e, m). (5, m)),
      exec_AT_verbose = (\<lambda>fd cmd buf sz (e, m). (response cmd, (e, Suc m))),
      task_spawn_cmd = (\<lambda>name argv (e, m). (spawned, (if spawned = - 1 then 12 else e, m))),
      process_one_command = (\<lambda>fd (e, m). (e, Suc m)),
      mode_AT = (\<lambda>os. os),
      mode_default = (\<lambda>os. os),
      memory_behind = (\<lambda>m. ''9.9.9.9'')\<rparr>"

definition test_state :: "bool \<Rightarrow> bool \<Rightarrow> nat state" where
  "test_state should_run running =
     \<lparr>daemon_should_run = should_run, daemon_running = running, errno = 0, machine = 0, trace = []\<rparr>"

definition test_response :: "string \<Rightarrow> int \<times> string" where
  "test_response cmd = (if cmd = ''AT+BAD'' then (- 1, []) else (2, ''OK''))"


section \<open>Properties\<close>

subsection \<open>Version comparison\<close>

lemma unat_ucast_u8: "unat (ucast (m :: u8) :: u32) = unat m"
proof -
  have "unat m < 2 ^ 8"
    using unsigned_less [of m] by simp
  then have "unat m < 2 ^ 32"
    by simp
  then show ?thesis
    by (simp add: unsigned_ucast_eq take_bit_nat_eq_self)
qed

lemma compare_le_unat:
  "version_firmware_compare_le [m0, m1, m2, m3] [v0, v1, v2, v3] =
     (unat m0 < unat v0 \<or> (unat m0 = unat v0 \<and>
       (unat m1 < unat v1 \<or> (unat m1 = unat v1 \<and>
         (unat m2 < unat v2 \<or> (unat m2 = unat v2 \<and> unat m3 \<le> unat v3))))))"
  by (simp add: version_firmware_compare_le_def word_less_nat_alt word_le_nat_alt
      word_unat_eq_iff unat_ucast_u8)

text \<open>
  C1. For every minimum \<open>[m0, m1, m2, m3]\<close> and version \<open>[v0, v1, v2, v3]\<close>,
  \<^verbatim>\<open>version_firmware_compare_le\<close> is true exactly when the lexicographic rule holds on the
  components' values: a smaller major, or equal majors and a smaller minor, or equal
  minors and a smaller patch, or equal patches and a build that is not greater. Equal
  tuples compare true; a version one less than the minimum in the build only compares
  false; a version greater in an earlier component compares true although its build is
  lower.
\<close>

theorem version_firmware_compare_le_lexicographic:
  "version_firmware_compare_le [m0, m1, m2, m3] [v0, v1, v2, v3] =
     (unat m0 < unat v0 \<or> (unat m0 = unat v0 \<and>
       (unat m1 < unat v1 \<or> (unat m1 = unat v1 \<and>
         (unat m2 < unat v2 \<or> (unat m2 = unat v2 \<and> unat m3 \<le> unat v3))))))
   \<and> version_firmware_compare_le [m0, m1, m2, m3] [ucast m0, ucast m1, ucast m2, ucast m3]
   \<and> (unat m3 = Suc (unat v3) \<longrightarrow>
        \<not> version_firmware_compare_le [m0, m1, m2, m3] [ucast m0, ucast m1, ucast m2, v3])
   \<and> (unat v3 < unat m3 \<and> unat m2 < unat v2 \<longrightarrow>
        version_firmware_compare_le [m0, m1, m2, m3] [ucast m0, ucast m1, v2, v3])
   \<and> (unat v3 < unat m3 \<and> unat m1 < unat v1 \<longrightarrow>
        version_firmware_compare_le [m0, m1, m2, m3] [ucast m0, v1, v2, v3])
   \<and> (unat v3 < unat m3 \<and> unat m0 < unat v0 \<longrightarrow>
        version_firmware_compare_le [m0, m1, m2, m3] [v0, v1, v2, v3])"
  by (simp add: compare_le_unat unat_ucast_u8)

theorem version_firmware_compare_le_lexicographic_witness:
  "version_firmware_compare_le [1, 8, 88, 5] [1, 8, 88, 5]
   \<and> \<not> version_firmware_compare_le [1, 8, 88, 5] [1, 8, 88, 4]
   \<and> version_firmware_compare_le [1, 8, 88, 5] [1, 8, 89, 4]
   \<and> version_firmware_compare_le [1, 8, 88, 5] [1, 9, 0, 4]
   \<and> version_firmware_compare_le [1, 8, 88, 5] [2, 0, 0, 4]
   \<and> \<not> version_firmware_compare_le [1, 8, 88, 5] [0, 9, 99, 9]"
  using version_firmware_compare_le_lexicographic [of 1 8 88 5 1 8 88 5]
    version_firmware_compare_le_lexicographic [of 1 8 88 5 1 8 89 4]
    version_firmware_compare_le_lexicographic [of 1 8 88 5 1 9 0 4]
    version_firmware_compare_le_lexicographic [of 1 8 88 5 2 0 0 4]
    version_firmware_compare_le_lexicographic [of 1 8 88 5 0 9 99 9]
  by simp

subsection \<open>Version parsing\<close>

lemma split_on_ne: "split_on P s \<noteq> []"
  by (cases s) auto

lemma split_on_append_delim:
  "P d \<Longrightarrow> split_on P (a @ d # b) = split_on P a @ split_on P b"
proof (induction a)
  case Nil
  then show ?case by simp
next
  case (Cons c a)
  then show ?case
    using split_on_ne [of P a] by (cases "split_on P a") auto
qed

lemma split_on_takeWhile:
  "split_on P cs =
     takeWhile (\<lambda>c. \<not> P c) cs #
       (case dropWhile (\<lambda>c. \<not> P c) cs of [] \<Rightarrow> [] | _ # r \<Rightarrow> split_on P r)"
  by (induction cs) auto

lemma tokens_Nil: "tokens [] = []"
  by (simp add: tokens_def)

lemma tokens_delim: "c \<in> set sep \<Longrightarrow> tokens (c # cs) = tokens cs"
  by (simp add: tokens_def)

lemma tokens_dropWhile: "tokens (dropWhile (\<lambda>c. c \<in> set sep) s) = tokens s"
  by (induction s) (auto simp: tokens_delim)

lemma tokens_nondelim:
  assumes "c \<notin> set sep"
  shows "tokens (c # cs) =
           (c # takeWhile (\<lambda>c. c \<notin> set sep) cs) #
             tokens (drop 1 (dropWhile (\<lambda>c. c \<notin> set sep) cs))"
proof -
  let ?P = "\<lambda>c. c \<in> set sep"
  define D where "D = dropWhile (\<lambda>c. c \<notin> set sep) cs"
  have so: "split_on ?P cs =
              takeWhile (\<lambda>c. c \<notin> set sep) cs # (case D of [] \<Rightarrow> [] | _ # r \<Rightarrow> split_on ?P r)"
    unfolding D_def by (rule split_on_takeWhile)
  have h: "hd (split_on ?P cs) = takeWhile (\<lambda>c. c \<notin> set sep) cs"
    by (subst so) simp
  have "tl (split_on ?P cs) = (case D of [] \<Rightarrow> [] | _ # r \<Rightarrow> split_on ?P r)"
    by (subst so) simp
  then have t: "filter (\<lambda>t. t \<noteq> []) (tl (split_on ?P cs)) = tokens (drop 1 D)"
    by (cases D) (simp_all add: tokens_def)
  have "tokens (c # cs) =
          (c # hd (split_on ?P cs)) # filter (\<lambda>t. t \<noteq> []) (tl (split_on ?P cs))"
    using assms by (simp add: tokens_def)
  then show ?thesis
    by (simp only: h t D_def)
qed

lemma tokens_strtok_r:
  "tokens s = (case strtok_r s sep of None \<Rightarrow> [] | Some (t, r) \<Rightarrow> t # tokens r)"
proof -
  let ?s1 = "dropWhile (\<lambda>c. c \<in> set sep) s"
  show ?thesis
  proof (cases ?s1)
    case Nil
    then have "tokens ?s1 = []"
      by (simp only: tokens_Nil)
    then have "tokens s = []"
      by (simp only: tokens_dropWhile)
    with Nil show ?thesis
      by (simp add: strtok_r_def)
  next
    case (Cons c cs)
    then have "hd ?s1 \<notin> set sep"
      using hd_dropWhile [of "\<lambda>c. c \<in> set sep" s] by simp
    with Cons have c: "c \<notin> set sep"
      by simp
    have "tokens s = tokens (c # cs)"
      using tokens_dropWhile [of s] Cons by simp
    with c Cons show ?thesis
      by (simp add: strtok_r_def tokens_nondelim)
  qed
qed

lemma loop_tokens:
  "version_firmware_parse_loop tail i v = parse_tokens (tokens tail) i v"
proof (induction tail i v rule: version_firmware_parse_loop.induct)
  case (1 tail i v)
  show ?case
  proof (cases "strtok_r tail sep")
    case None
    then show ?thesis
      by (subst version_firmware_parse_loop.simps) (simp add: tokens_strtok_r [of tail])
  next
    case (Some p)
    obtain n tail' where p: "p = (n, tail')" by (cases p)
    obtain ok x where pu: "parse_uint n = (ok, x)" by (cases "parse_uint n")
    have toks: "tokens tail = n # tokens tail'"
      using Some p by (simp add: tokens_strtok_r [of tail])
    show ?thesis
    proof (cases "ok \<and> Suc i \<noteq> 4")
      case True
      have "version_firmware_parse_loop tail' (Suc i) (v[i := x]) =
                   parse_tokens (tokens tail') (Suc i) (v[i := x])"
        by (rule "1.IH" [of "(n, tail')" n tail' ok x]) (use True Some p pu in simp_all)
      with True show ?thesis
        by (subst version_firmware_parse_loop.simps) (simp add: Some p pu toks)
    next
      case False
      then show ?thesis
        by (subst version_firmware_parse_loop.simps) (auto simp: Some p pu toks)
    qed
  qed
qed

lemma parse_tokens_fst:
  "i < 4 \<Longrightarrow>
   fst (parse_tokens ts i v) =
     (4 - i \<le> length ts \<and> (\<forall>t\<in>set (take (4 - i) ts). fst (parse_uint t)))"
proof (induction ts arbitrary: i v)
  case Nil
  then show ?case by simp
next
  case (Cons t ts)
  obtain ok x where pu: "parse_uint t = (ok, x)" by (cases "parse_uint t")
  from Cons.prems have k: "4 - i = Suc (3 - i)" by arith
  show ?case
  proof (cases "ok \<and> Suc i \<noteq> 4")
    case True
    with Cons.prems have "Suc i < 4" by simp
    from Cons.IH [OF this, of "v[i := x]"] True k pu show ?thesis
      by (auto simp: Suc_diff_Suc)
  next
    case False
    with Cons.prems k pu show ?thesis by auto
  qed
qed

lemma parse_tokens_take:
  "i < 4 \<Longrightarrow> parse_tokens (take (4 - i) ts) i v = parse_tokens ts i v"
proof (induction ts arbitrary: i v)
  case Nil
  then show ?case by simp
next
  case (Cons t ts)
  obtain ok x where pu: "parse_uint t = (ok, x)" by (cases "parse_uint t")
  from Cons.prems have k: "4 - i = Suc (3 - i)" by arith
  show ?case
  proof (cases "ok \<and> Suc i \<noteq> 4")
    case True
    with Cons.prems have "Suc i < 4" by simp
    from Cons.IH [OF this, of "v[i := x]"] True k pu show ?thesis
      by (auto simp: Suc_diff_Suc)
  next
    case False
    with Cons.prems k pu show ?thesis by auto
  qed
qed

lemma parse_tokens_snd:
  "i < 4 \<Longrightarrow> length v = 4 \<Longrightarrow> fst (parse_tokens ts i v) \<Longrightarrow>
   snd (parse_tokens ts i v) = take i v @ map (\<lambda>t. snd (parse_uint t)) (take (4 - i) ts)"
proof (induction ts arbitrary: i v)
  case Nil
  then show ?case by simp
next
  case (Cons t ts)
  obtain ok x where pu: "parse_uint t = (ok, x)" by (cases "parse_uint t")
  from Cons.prems have k: "4 - i = Suc (3 - i)" by arith
  have upd: "take (Suc i) (v[i := x]) = take i v @ [x]"
    using Cons.prems by (simp add: take_Suc_conv_app_nth)
  show ?case
  proof (cases "ok \<and> Suc i \<noteq> 4")
    case True
    with Cons.prems have lt: "Suc i < 4" by simp
    have "fst (parse_tokens ts (Suc i) (v[i := x]))"
      using Cons.prems(3) True pu by simp
    from Cons.IH [OF lt _ this] Cons.prems True k pu upd show ?thesis
      by (auto simp: Suc_diff_Suc)
  next
    case False
    with Cons.prems pu have i3: "i = 3" and ok by (auto split: if_splits)
    then have "v[i := x] = take i v @ [x]"
      using Cons.prems(2) by (simp add: upd_conv_take_nth_drop)
    with i3 \<open>ok\<close> pu show ?thesis by simp
  qed
qed


lemmas parse_uint_eval =
  parse_uint_def parse_uint_tail_def strtoul_def isspace_def is_digit_def digit_val_def
  ULONG_MAX_def TAB_def LF_def CR_def VT_def FF_def

lemma parse_uint_1: "parse_uint ''1'' = (True, 1)" by (simp add: parse_uint_eval)
lemma parse_uint_8: "parse_uint ''8'' = (True, 8)" by (simp add: parse_uint_eval)
lemma parse_uint_88: "parse_uint ''88'' = (True, 88)" by (simp add: parse_uint_eval)
lemma parse_uint_87: "parse_uint ''87'' = (True, 87)" by (simp add: parse_uint_eval)
lemma parse_uint_0: "parse_uint ''0'' = (True, 0)" by (simp add: parse_uint_eval)
lemma parse_uint_x: "parse_uint ''x'' = (False, 0)" by (simp add: parse_uint_eval)
lemma parse_uint_hex: "parse_uint ''0x1f'' = (True, 31)" by (simp add: parse_uint_eval)
lemma parse_uint_octal: "parse_uint ''010'' = (True, 8)" by (simp add: parse_uint_eval)
lemma parse_uint_minus: "parse_uint ''-1'' = (True, 4294967295)" by (simp add: parse_uint_eval)

lemma version_firmware_parse_tokens:
  "version_firmware_parse s v = parse_tokens (tokens s) 0 v"
  by (simp add: version_firmware_parse_def loop_tokens)

lemma tokens_append_delim:
  "d \<in> set sep \<Longrightarrow> tokens (a @ d # b) = tokens a @ tokens b"
  by (simp add: tokens_def split_on_append_delim)

lemmas tokens_eval = tokens_def sep_def LF_def CR_def

text \<open>
  C2. \<^verbatim>\<open>version_firmware_parse\<close> cuts its input at the delimiters \<^verbatim>\<open>.\<close>, carriage
  return and line feed. It succeeds exactly when there are at least four tokens and each
  of the first four parses in full as an unsigned integer (\<^verbatim>\<open>parse_uint\<close> accepts it);
  it then returns the four values in order. A token among the first four that does not
  parse, or fewer than four tokens, makes it fail. What follows the fourth token has no
  influence on the result. A token parses in full when \<^verbatim>\<open>strtoul\<close> converts something
  and its end pointer reaches the end of the token.
\<close>

theorem version_firmware_parse_first_four_tokens:
  "length v = 4 \<Longrightarrow>
     fst (version_firmware_parse s v) =
       (4 \<le> length (tokens s) \<and> (\<forall>t\<in>set (take 4 (tokens s)). fst (parse_uint t)))
     \<and> (fst (version_firmware_parse s v) \<longrightarrow>
          snd (version_firmware_parse s v) = map (\<lambda>t. snd (parse_uint t)) (take 4 (tokens s)))
     \<and> (take 4 (tokens s') = take 4 (tokens s) \<longrightarrow>
          version_firmware_parse s' v = version_firmware_parse s v)
     \<and> fst (parse_uint t) = (snd (strtoul t 0) \<noteq> 0 \<and> snd (strtoul t 0) = length t)
     \<and> snd (parse_uint t) = fst (strtoul t 0)"
proof (intro conjI impI)
  show "fst (parse_uint t) = (snd (strtoul t 0) \<noteq> 0 \<and> snd (strtoul t 0) = length t)"
    by (simp add: parse_uint_def parse_uint_tail_def case_prod_beta)
  show "snd (parse_uint t) = fst (strtoul t 0)"
    by (simp add: parse_uint_def parse_uint_tail_def case_prod_beta)
next
  show "fst (version_firmware_parse s v) =
          (4 \<le> length (tokens s) \<and> (\<forall>t\<in>set (take 4 (tokens s)). fst (parse_uint t)))"
    using parse_tokens_fst [of 0 "tokens s" v] by (simp add: version_firmware_parse_tokens)
next
  assume "length v = 4" and "fst (version_firmware_parse s v)"
  then show "snd (version_firmware_parse s v) = map (\<lambda>t. snd (parse_uint t)) (take 4 (tokens s))"
    using parse_tokens_snd [of 0 v "tokens s"] by (simp add: version_firmware_parse_tokens)
next
  assume "take 4 (tokens s') = take 4 (tokens s)"
  then show "version_firmware_parse s' v = version_firmware_parse s v"
    using parse_tokens_take [of 0 "tokens s" v] parse_tokens_take [of 0 "tokens s'" v]
    by (simp add: version_firmware_parse_tokens)
qed

theorem version_firmware_parse_first_four_tokens_witness:
  "fst (version_firmware_parse (''1.8.88.0'' @ [CR, LF] @ ''9.x'') [0, 0, 0, 0])
   \<and> snd (version_firmware_parse (''1.8.88.0'' @ [CR, LF] @ ''9.x'') [0, 0, 0, 0]) = [1, 8, 88, 0]
   \<and> version_firmware_parse ''1.8.88.0'' [0, 0, 0, 0] =
       version_firmware_parse (''1.8.88.0'' @ [CR, LF] @ ''9.x'') [0, 0, 0, 0]
   \<and> \<not> fst (version_firmware_parse ''1.8.x.0'' [0, 0, 0, 0])
   \<and> \<not> fst (version_firmware_parse ''1.8.88'' [0, 0, 0, 0])"
  using version_firmware_parse_first_four_tokens
          [of "[0, 0, 0, 0]" "''1.8.88.0'' @ [CR, LF] @ ''9.x''" "''1.8.88.0''" "''1''"]
        version_firmware_parse_first_four_tokens
          [of "[0, 0, 0, 0]" "''1.8.x.0''" "''1.8.x.0''" "''1''"]
        version_firmware_parse_first_four_tokens
          [of "[0, 0, 0, 0]" "''1.8.88''" "''1.8.88''" "''1''"]
  by (simp add: tokens_eval parse_uint_1 parse_uint_8 parse_uint_88 parse_uint_0 parse_uint_x)

lemma tokens_run: "\<forall>c\<in>set r. c \<in> set sep \<Longrightarrow> tokens (r @ x) = tokens x"
  by (induction r) (simp_all add: tokens_delim)

lemma tokens_word:
  assumes "t \<noteq> []" and "\<forall>c\<in>set t. c \<notin> set sep" and "x = [] \<or> hd x \<in> set sep"
  shows "tokens (t @ x) = t # tokens x"
proof -
  from assms(1) obtain c t' where t: "t = c # t'"
    by (cases t) auto
  have tw: "takeWhile (\<lambda>c. c \<notin> set sep) x = []" and dw: "dropWhile (\<lambda>c. c \<notin> set sep) x = x"
    using assms(3) by (cases x; auto)+
  have "takeWhile (\<lambda>c. c \<notin> set sep) (t' @ x) = t' @ takeWhile (\<lambda>c. c \<notin> set sep) x"
    using assms(2) t by (intro takeWhile_append2) auto
  then have a: "takeWhile (\<lambda>c. c \<notin> set sep) (t' @ x) = t'"
    by (simp add: tw)
  have "dropWhile (\<lambda>c. c \<notin> set sep) (t' @ x) = dropWhile (\<lambda>c. c \<notin> set sep) x"
    using assms(2) t by (intro dropWhile_append2) auto
  then have b: "dropWhile (\<lambda>c. c \<notin> set sep) (t' @ x) = x"
    by (simp add: dw)
  have d: "tokens (drop 1 x) = tokens x"
    using assms(3) by (cases x) (auto simp: tokens_delim)
  have "tokens (c # (t' @ x)) = (c # t') # tokens (drop 1 x)"
    using tokens_nondelim [of c "t' @ x"] assms(2) t by (simp only: a b) simp
  then have "tokens (c # (t' @ x)) = (c # t') # tokens x"
    by (simp only: d)
  then show ?thesis
    by (simp add: t)
qed

lemma tokens_four_words:
  assumes "\<forall>t\<in>set [t1, t2, t3, t4]. t \<noteq> [] \<and> (\<forall>c\<in>set t. c \<notin> set sep)"
    and "\<forall>c\<in>set r0. c \<in> set sep"
    and "\<forall>r\<in>set [r1, r2, r3]. r \<noteq> [] \<and> (\<forall>c\<in>set r. c \<in> set sep)"
    and "rest = [] \<or> hd rest \<in> set sep"
  shows "tokens (r0 @ t1 @ r1 @ t2 @ r2 @ t3 @ r3 @ t4 @ rest) = t1 # t2 # t3 # t4 # tokens rest"
proof -
  have h: "hd (r @ x) \<in> set sep" if "r \<noteq> []" "\<forall>c\<in>set r. c \<in> set sep" for r x
    using that by (cases r) auto
  have "tokens (r0 @ t1 @ r1 @ t2 @ r2 @ t3 @ r3 @ t4 @ rest) =
          tokens (t1 @ r1 @ t2 @ r2 @ t3 @ r3 @ t4 @ rest)"
    using assms(2) by (rule tokens_run)
  also have "\<dots> = t1 # tokens (r1 @ t2 @ r2 @ t3 @ r3 @ t4 @ rest)"
    using assms(1,3) h [of r1] by (intro tokens_word) auto
  also have "tokens (r1 @ t2 @ r2 @ t3 @ r3 @ t4 @ rest) = tokens (t2 @ r2 @ t3 @ r3 @ t4 @ rest)"
    using assms(3) by (intro tokens_run) auto
  also have "\<dots> = t2 # tokens (r2 @ t3 @ r3 @ t4 @ rest)"
    using assms(1,3) h [of r2] by (intro tokens_word) auto
  also have "tokens (r2 @ t3 @ r3 @ t4 @ rest) = tokens (t3 @ r3 @ t4 @ rest)"
    using assms(3) by (intro tokens_run) auto
  also have "\<dots> = t3 # tokens (r3 @ t4 @ rest)"
    using assms(1,3) h [of r3] by (intro tokens_word) auto
  also have "tokens (r3 @ t4 @ rest) = tokens (t4 @ rest)"
    using assms(3) by (intro tokens_run) auto
  also have "\<dots> = t4 # tokens rest"
    using assms(1,4) by (intro tokens_word) auto
  finally show ?thesis .
qed

text \<open>
  C9. An empty version component is skipped, not rejected: \<^verbatim>\<open>strtok_r\<close> takes a run of
  delimiters as one separator. So \<^verbatim>\<open>1..8.88.0\<close>, whose pieces between the delimiters
  include an empty one, and a list split across a carriage return and line feed still
  parse. For every input the tokens are the non-empty pieces between the delimiters,
  the parse succeeds exactly when the first four of them are numeric, and it returns
  their values. Whenever four numeric tokens are separated by runs of delimiters of any
  length, after any delimiters in front, the parse returns those four values; and a
  second delimiter next to a delimiter never changes the result.
\<close>

theorem version_firmware_parse_skips_empty_components:
  "version_firmware_parse ''1..8.88.0'' [a, b, c, d] = (True, [1, 8, 88, 0])
   \<and> version_firmware_parse (''1.8'' @ [CR, LF] @ ''88.0'' @ [CR, LF]) [a, b, c, d] = (True, [1, 8, 88, 0])
   \<and> strtok_r ''..8.88.0'' sep = Some (''8'', ''88.0'')
   \<and> split_on (\<lambda>c. c \<in> set sep) ''1..8.88.0'' = [''1'', [], ''8'', ''88'', ''0'']
   \<and> (d1 \<in> set sep \<and> d2 \<in> set sep \<longrightarrow>
        version_firmware_parse (x @ d1 # d2 # y) v = version_firmware_parse (x @ d1 # y) v)
   \<and> tokens s = filter (\<lambda>t. t \<noteq> []) (split_on (\<lambda>c. c \<in> set sep) s)
   \<and> fst (version_firmware_parse s [a, b, c, d]) =
       (4 \<le> length (tokens s) \<and> (\<forall>t\<in>set (take 4 (tokens s)). fst (parse_uint t)))
   \<and> (fst (version_firmware_parse s [a, b, c, d]) \<longrightarrow>
        snd (version_firmware_parse s [a, b, c, d]) =
          map (\<lambda>t. snd (parse_uint t)) (take 4 (tokens s)))
   \<and> ((\<forall>t\<in>set [t1, t2, t3, t4]. t \<noteq> [] \<and> (\<forall>c\<in>set t. c \<notin> set sep) \<and> fst (parse_uint t))
        \<and> (\<forall>c\<in>set r0. c \<in> set sep)
        \<and> (\<forall>r\<in>set [r1, r2, r3]. r \<noteq> [] \<and> (\<forall>c\<in>set r. c \<in> set sep))
        \<and> (rest = [] \<or> hd rest \<in> set sep) \<longrightarrow>
        version_firmware_parse (r0 @ t1 @ r1 @ t2 @ r2 @ t3 @ r3 @ t4 @ rest) [a, b, c, d] =
          (True, [snd (parse_uint t1), snd (parse_uint t2), snd (parse_uint t3), snd (parse_uint t4)]))"
proof (intro conjI impI)
  have t1: "tokens ''1..8.88.0'' = [''1'', ''8'', ''88'', ''0'']"
    by (simp add: tokens_eval)
  show "version_firmware_parse ''1..8.88.0'' [a, b, c, d] = (True, [1, 8, 88, 0])"
    by (simp add: version_firmware_parse_tokens t1 parse_uint_1 parse_uint_8 parse_uint_88 parse_uint_0)
  show "version_firmware_parse (''1.8'' @ [CR, LF] @ ''88.0'' @ [CR, LF]) [a, b, c, d] = (True, [1, 8, 88, 0])"
    by (simp add: version_firmware_parse_tokens tokens_eval parse_uint_1 parse_uint_8 parse_uint_88 parse_uint_0)
  show "strtok_r ''..8.88.0'' sep = Some (''8'', ''88.0'')"
    by (simp add: strtok_r_def sep_def LF_def CR_def)
  show "split_on (\<lambda>c. c \<in> set sep) ''1..8.88.0'' = [''1'', [], ''8'', ''88'', ''0'']"
    by (simp add: sep_def LF_def CR_def)
  show "tokens s = filter (\<lambda>t. t \<noteq> []) (split_on (\<lambda>c. c \<in> set sep) s)"
    by (simp add: tokens_def)
  show "fst (version_firmware_parse s [a, b, c, d]) =
          (4 \<le> length (tokens s) \<and> (\<forall>t\<in>set (take 4 (tokens s)). fst (parse_uint t)))"
    using parse_tokens_fst [of 0 "tokens s" "[a, b, c, d]"]
    by (simp add: version_firmware_parse_tokens)
next
  assume "fst (version_firmware_parse s [a, b, c, d])"
  then show "snd (version_firmware_parse s [a, b, c, d]) =
               map (\<lambda>t. snd (parse_uint t)) (take 4 (tokens s))"
    using parse_tokens_snd [of 0 "[a, b, c, d]" "tokens s"]
    by (simp add: version_firmware_parse_tokens)
next
  assume "d1 \<in> set sep \<and> d2 \<in> set sep"
  then have "tokens (x @ d1 # d2 # y) = tokens (x @ d1 # y)"
    by (simp add: tokens_append_delim tokens_delim)
  then show "version_firmware_parse (x @ d1 # d2 # y) v = version_firmware_parse (x @ d1 # y) v"
    by (simp add: version_firmware_parse_tokens)
next
  assume h: "(\<forall>t\<in>set [t1, t2, t3, t4]. t \<noteq> [] \<and> (\<forall>c\<in>set t. c \<notin> set sep) \<and> fst (parse_uint t))
        \<and> (\<forall>c\<in>set r0. c \<in> set sep)
        \<and> (\<forall>r\<in>set [r1, r2, r3]. r \<noteq> [] \<and> (\<forall>c\<in>set r. c \<in> set sep))
        \<and> (rest = [] \<or> hd rest \<in> set sep)"
  then have "tokens (r0 @ t1 @ r1 @ t2 @ r2 @ t3 @ r3 @ t4 @ rest) = t1 # t2 # t3 # t4 # tokens rest"
    by (intro tokens_four_words) auto
  moreover from h have "fst (parse_uint t1)" "fst (parse_uint t2)" "fst (parse_uint t3)" "fst (parse_uint t4)"
    by auto
  ultimately show "version_firmware_parse (r0 @ t1 @ r1 @ t2 @ r2 @ t3 @ r3 @ t4 @ rest) [a, b, c, d] =
          (True, [snd (parse_uint t1), snd (parse_uint t2), snd (parse_uint t3), snd (parse_uint t4)])"
    by (simp add: version_firmware_parse_tokens case_prod_beta)
qed

theorem version_firmware_parse_skips_empty_components_witness:
  "version_firmware_parse (''1'' @ CHR ''.'' # LF # ''8.88.0'') [0, 0, 0, 0] =
     version_firmware_parse (''1'' @ CHR ''.'' # ''8.88.0'') [0, 0, 0, 0]
   \<and> version_firmware_parse ''1..8.88.0'' [0, 0, 0, 0] = (True, [1, 8, 88, 0])
   \<and> version_firmware_parse
        ([CR, LF] @ ''1'' @ ''..'' @ ''8'' @ [CR, LF, CHR ''.''] @ ''87'' @ ''.'' @ ''0'' @ [CR, LF] @ ''x'')
        [0, 0, 0, 0] = (True, [1, 8, 87, 0])
   \<and> fst (version_firmware_parse ''1..8.87.0.x'' [0, 0, 0, 0])
   \<and> snd (version_firmware_parse ''1..8.87.0.x'' [0, 0, 0, 0]) = [1, 8, 87, 0]
   \<and> \<not> fst (version_firmware_parse ''1..8.x.0'' [0, 0, 0, 0])"
  using version_firmware_parse_skips_empty_components
          [where a = 0 and b = 0 and c = 0 and d = 0 and ?d1.0 = "CHR ''.''" and ?d2.0 = LF
             and x = "''1''" and y = "''8.88.0''" and v = "[0, 0, 0, 0]" and s = "''1..8.87.0.x''"
             and ?t1.0 = "''1''" and ?t2.0 = "''8''" and ?t3.0 = "''87''" and ?t4.0 = "''0''"
             and ?r0.0 = "[CR, LF]" and ?r1.0 = "''..''" and ?r2.0 = "[CR, LF, CHR ''.'']"
             and ?r3.0 = "''.''" and rest = "[CR, LF] @ ''x''"]
        version_firmware_parse_skips_empty_components
          [where a = 0 and b = 0 and c = 0 and d = 0 and ?d1.0 = "CHR ''.''" and ?d2.0 = LF
             and x = "''1''" and y = "''8.88.0''" and v = "[0, 0, 0, 0]" and s = "''1..8.x.0''"
             and ?t1.0 = "''1''" and ?t2.0 = "''8''" and ?t3.0 = "''87''" and ?t4.0 = "''0''"
             and ?r0.0 = "[CR, LF]" and ?r1.0 = "''..''" and ?r2.0 = "[CR, LF, CHR ''.'']"
             and ?r3.0 = "''.''" and rest = "[CR, LF] @ ''x''"]
  by (simp add: tokens_eval parse_uint_1 parse_uint_8 parse_uint_87 parse_uint_0 parse_uint_x)

text \<open>
  C10. The tokens are read by \<^verbatim>\<open>strtoul\<close> with base 0: a hexadecimal token such as
  \<^verbatim>\<open>0x1f\<close>, an octal token with a leading zero, and a token with a minus sign, which
  wraps modulo \<open>2 ^ 32\<close>, all parse and are accepted as version components.
\<close>

theorem parse_uint_accepts_hex_octal_minus:
  "parse_uint ''0x1f'' = (True, 31)
   \<and> parse_uint ''010'' = (True, 8)
   \<and> parse_uint ''-1'' = (True, 4294967295)
   \<and> unat (snd (parse_uint ''-1'')) = 2 ^ 32 - 1
   \<and> version_firmware_parse ''0x1f.010.-1.0'' [a, b, c, d] = (True, [31, 8, 4294967295, 0])"
proof -
  have t: "tokens ''0x1f.010.-1.0'' = [''0x1f'', ''010'', ''-1'', ''0'']"
    by (simp add: tokens_eval)
  show ?thesis
    by (simp add: version_firmware_parse_tokens t parse_uint_hex parse_uint_octal
        parse_uint_minus parse_uint_0)
qed


subsection \<open>Effects on the state\<close>

lemma call_flags [simp]:
  "call f st = (r, st') \<Longrightarrow> daemon_running st' = daemon_running st"
  "call f st = (r, st') \<Longrightarrow> daemon_should_run st' = daemon_should_run st"
  "call f st = (r, st') \<Longrightarrow> trace st' = trace st"
  by (auto simp: call_def split: prod.splits)

lemma call_void_flags [simp]:
  "daemon_running (call_void f st) = daemon_running st"
  "daemon_should_run (call_void f st) = daemon_should_run st"
  "trace (call_void f st) = trace st"
  by (auto simp: call_void_def split: prod.splits)

lemma emit_simps [simp]:
  "daemon_running (emit e st) = daemon_running st"
  "daemon_should_run (emit e st) = daemon_should_run st"
  "errno (emit e st) = errno st"
  "machine (emit e st) = machine st"
  "trace (emit e st) = trace st @ [e]"
  by (simp_all add: emit_def)

lemma close_file_flags [simp]:
  "daemon_running (snd (close_file env d st)) = daemon_running st"
  "daemon_should_run (snd (close_file env d st)) = daemon_should_run st"
  by (simp_all add: close_file_def)

lemma unique_file_destroy_flags [simp]:
  "daemon_running (unique_file_destroy env d st) = daemon_running st"
  "daemon_should_run (unique_file_destroy env d st) = daemon_should_run st"
  by (simp_all add: unique_file_destroy_def)

lemma open_serial_flags [simp]:
  "daemon_running (snd (open_serial env name st)) = daemon_running st"
  "daemon_should_run (snd (open_serial env name st)) = daemon_should_run st"
proof -
  obtain fd0 st1 where a: "call (tty_open env name) st = (fd0, st1)"
    by (cases "call (tty_open env name) st")
  obtain s_ok st2 where b: "call (tty_set_speed env fd0 B9600) st1 = (s_ok, st2)"
    by (cases "call (tty_set_speed env fd0 B9600) st1")
  obtain c_ok st3 where c: "call (tty_use_ctsrts env fd0) st2 = (c_ok, st3)"
    by (cases "call (tty_use_ctsrts env fd0) st2")
  note f = call_flags [OF a] call_flags [OF b] call_flags [OF c]
  show "daemon_running (snd (open_serial env name st)) = daemon_running st"
    using a b c f by (simp add: open_serial_def fileno_def Let_def case_prod_beta)
  show "daemon_should_run (snd (open_serial env name st)) = daemon_should_run st"
    using a b c f by (simp add: open_serial_def fileno_def Let_def case_prod_beta)
qed

lemma foreground_write_flags [simp]:
  "daemon_running (foreground_write w st) = daemon_running st"
  "trace (foreground_write w st) = trace st"
  by (cases w; simp)+

subsection \<open>Opening the serial device\<close>

text \<open>
  C6. When \<^verbatim>\<open>open_serial\<close> fails while configuring the device (the speed or the RTS/CTS
  flow control), the handle it returns is closed, the descriptor has been closed, and
  \<^verbatim>\<open>errno\<close> is the one the failing step left, whatever the debug line and the
  \<^verbatim>\<open>close\<close> call did to it in between.
\<close>

theorem open_serial_failure_closes_and_keeps_errno:
  assumes "call (tty_open env name) st = (fd0, st1)"
    and "fd0 \<noteq> - 1"
    and "call (tty_set_speed env fd0 B9600) st1 = (speed_ok, st2)"
    and "call (tty_use_ctsrts env fd0) st2 = (cts_ok, st3)"
    and "\<not> (speed_ok \<and> cts_ok)"
  shows "fileno (fst (open_serial env name st)) = - 1
    \<and> errno (snd (open_serial env name st)) = errno (if speed_ok then st3 else st2)
    \<and> trace (snd (open_serial env name st)) = trace st @ [Close fd0]
    \<and> snd (open_serial env name st) =
        (call_void (sys_close env fd0)
           (emit (Close fd0)
              (call_void (dbg_perror env ''open_serial('%s')'' name)
                 (if speed_ok then st3 else st2))))
        \<lparr>errno := errno (if speed_ok then st3 else st2)\<rparr>"
proof (cases speed_ok)
  case True
  with assms have "\<not> cts_ok" by simp
  with True assms show ?thesis
    by (simp add: open_serial_def fileno_def close_file_def Let_def)
next
  case False
  with assms show ?thesis
    by (simp add: open_serial_def fileno_def close_file_def Let_def)
qed

theorem open_serial_failure_closes_and_keeps_errno_witness:
  "fileno (fst (open_serial (test_env 3 False True test_response 0) ''/dev/ttyS2'' (test_state False False))) = - 1
   \<and> errno (snd (open_serial (test_env 3 False True test_response 0) ''/dev/ttyS2'' (test_state False False))) = 25
   \<and> trace (snd (open_serial (test_env 3 False True test_response 0) ''/dev/ttyS2'' (test_state False False))) = [Close 3]
   \<and> fileno (fst (open_serial (test_env 3 True False test_response 0) ''/dev/ttyS2'' (test_state False False))) = - 1
   \<and> errno (snd (open_serial (test_env 3 True False test_response 0) ''/dev/ttyS2'' (test_state False False))) = 22
   \<and> trace (snd (open_serial (test_env 3 True False test_response 0) ''/dev/ttyS2'' (test_state False False))) = [Close 3]
   \<and> errno (call_void (sys_close (test_env 3 False True test_response 0) 3) (test_state False False)) = 9"
  using open_serial_failure_closes_and_keeps_errno
    [of "test_env 3 False True test_response 0" "''/dev/ttyS2''" "test_state False False"
        3 "test_state False False" False "(test_state False False)\<lparr>errno := 25\<rparr>"
        True "(test_state False False)\<lparr>errno := 25\<rparr>"]
    open_serial_failure_closes_and_keeps_errno
    [of "test_env 3 True False test_response 0" "''/dev/ttyS2''" "test_state False False"
        3 "test_state False False" True "test_state False False"
        False "(test_state False False)\<lparr>errno := 22\<rparr>"]
  by (simp add: test_env_def test_state_def call_def call_void_def)

subsection \<open>The background task\<close>

lemma daemon_step_inv:
  "daemon_inv (pc, st) \<Longrightarrow> daemon_inv (daemon_step env name tty (pc, st))"
proof (cases pc)
  case Entry
  assume "daemon_inv (pc, st)"
  with Entry show ?thesis
    by (cases "open_serial env tty (emit (Fprintf_stderr ''%s starting...\<newline>'' [Arg_s name]) st)")
       (use open_serial_flags(1) [of env tty "emit (Fprintf_stderr ''%s starting...\<newline>'' [Arg_s name]) st"]
         in \<open>auto simp: daemon_inv_def Let_def\<close>)
qed (auto simp: daemon_inv_def Let_def)

lemma foreground_write_inv:
  "daemon_inv (pc, st) \<Longrightarrow> daemon_inv (pc, foreground_write w st)"
  by (cases w) (auto simp: daemon_inv_def split: daemon_pc.splits)

lemma daemon_run_inv:
  "daemon_inv cfg \<Longrightarrow> daemon_inv (daemon_run env name tty sched cfg)"
proof (induction sched arbitrary: cfg)
  case Nil
  then show ?case by simp
next
  case (Cons w ws)
  obtain pc st where cfg: "cfg = (pc, st)" by (cases cfg)
  with Cons.prems have "daemon_inv (daemon_step env name tty (pc, foreground_write w st))"
    by (intro daemon_step_inv foreground_write_inv) simp
  from Cons.IH [OF this] cfg show ?case by simp
qed

lemma daemon_run_returned:
  "fst (daemon_run env name tty ws (Returned r, s)) = Returned r
   \<and> trace (snd (daemon_run env name tty ws (Returned r, s))) = trace s
   \<and> daemon_running (snd (daemon_run env name tty ws (Returned r, s))) = daemon_running s"
proof (induction ws arbitrary: s)
  case Nil
  show ?case by simp
next
  case (Cons w ws)
  show ?case
    using Cons [of "foreground_write w s"] by (cases w) simp_all
qed

lemma daemon_run_append:
  "daemon_run env name tty (ws @ ws') cfg = daemon_run env name tty ws' (daemon_run env name tty ws cfg)"
  by (induction ws arbitrary: cfg) simp_all

text \<open>
  C8. In every run of the background task, under every schedule of foreground writes,
  \<^verbatim>\<open>daemon_running\<close> is true only while the task is in its loop with an open handle. If
  \<^verbatim>\<open>open_serial\<close> fails, the task reports the error and returns 1 with
  \<^verbatim>\<open>daemon_running\<close> still false. If it succeeds, the task sets \<^verbatim>\<open>daemon_running\<close> and
  enters the loop; each round with \<^verbatim>\<open>daemon_should_run\<close> true calls
  \<^verbatim>\<open>process_one_command\<close> once and stays in the loop, and the first round that finds it
  false clears \<^verbatim>\<open>daemon_running\<close> and returns 0.
\<close>

theorem daemon_running_only_with_open_handle:
  assumes "\<not> daemon_running st"
  shows "(daemon_running (snd (daemon_run env name tty sched (Entry, st))) \<longrightarrow>
          (\<exists>d. fst (daemon_run env name tty sched (Entry, st)) = Looping d \<and> fileno d \<noteq> - 1))
    \<and> (fileno (fst (open_serial env tty
                      (emit (Fprintf_stderr ''%s starting...\<newline>'' [Arg_s name]) (foreground_write w st)))) = - 1 \<longrightarrow>
          fst (daemon_run env name tty (w # ws) (Entry, st)) = Returned 1
          \<and> \<not> daemon_running (snd (daemon_run env name tty (w # ws) (Entry, st)))
          \<and> last (trace (snd (daemon_run env name tty (w # ws) (Entry, st)))) =
              Perror name (errno (snd (open_serial env tty
                 (emit (Fprintf_stderr ''%s starting...\<newline>'' [Arg_s name]) (foreground_write w st))))))
    \<and> (fileno (fst (open_serial env tty
                      (emit (Fprintf_stderr ''%s starting...\<newline>'' [Arg_s name]) (foreground_write w st)))) \<noteq> - 1 \<longrightarrow>
          fst (daemon_run env name tty [w, w'] (Entry, st)) =
            Looping (fst (open_serial env tty
                      (emit (Fprintf_stderr ''%s starting...\<newline>'' [Arg_s name]) (foreground_write w st))))
          \<and> daemon_running (snd (daemon_run env name tty [w, w'] (Entry, st))))
    \<and> (daemon_should_run s \<longrightarrow>
          daemon_step env name tty (Looping d, s) =
            (Looping d, emit (Process_one_command (fileno d))
                          (call_void (process_one_command env (fileno d)) s)))
    \<and> (\<not> daemon_should_run s \<longrightarrow>
          fst (daemon_step env name tty (Looping d, s)) = Returned 0
          \<and> \<not> daemon_running (snd (daemon_step env name tty (Looping d, s))))"
proof (intro conjI impI)
  let ?cfg = "daemon_run env name tty sched (Entry, st)"
  assume r: "daemon_running (snd ?cfg)"
  have "daemon_inv (Entry, st)"
    using assms by (simp add: daemon_inv_def)
  then have "daemon_inv ?cfg"
    by (rule daemon_run_inv)
  with r show "\<exists>d. fst ?cfg = Looping d \<and> fileno d \<noteq> - 1"
    by (cases "fst ?cfg") (auto simp: daemon_inv_def)
next
  let ?o = "open_serial env tty
              (emit (Fprintf_stderr ''%s starting...\<newline>'' [Arg_s name]) (foreground_write w st))"
  assume f: "fileno (fst ?o) = - 1"
  obtain dd st2 where o: "?o = (dd, st2)" by (cases ?o)
  have "daemon_running (snd ?o) = daemon_running st"
    by simp
  with o assms have nr: "\<not> daemon_running st2"
    by simp
  have fdd: "fd dd = - 1"
    using f o by (simp add: fileno_def)
  have step: "daemon_step env name tty (Entry, foreground_write w st) =
                (Returned 1, emit (Perror name (errno st2)) st2)"
    using f o fdd by (simp add: Let_def unique_file_destroy_def close_file_def)
  note ret = daemon_run_returned [of env name tty ws 1 "emit (Perror name (errno st2)) st2"]
  show "fst (daemon_run env name tty (w # ws) (Entry, st)) = Returned 1"
    using step ret by simp
  show "\<not> daemon_running (snd (daemon_run env name tty (w # ws) (Entry, st)))"
    using step ret nr by simp
  show "last (trace (snd (daemon_run env name tty (w # ws) (Entry, st)))) = Perror name (errno (snd ?o))"
    using step ret o by simp
next
  let ?o = "open_serial env tty
              (emit (Fprintf_stderr ''%s starting...\<newline>'' [Arg_s name]) (foreground_write w st))"
  assume f: "fileno (fst ?o) \<noteq> - 1"
  obtain dd st2 where o: "?o = (dd, st2)" by (cases ?o)
  have step: "daemon_step env name tty (Entry, foreground_write w st) = (Opened dd, st2)"
    using f o by (simp add: Let_def)
  show "fst (daemon_run env name tty [w, w'] (Entry, st)) = Looping (fst ?o)"
    using step o by simp
  show "daemon_running (snd (daemon_run env name tty [w, w'] (Entry, st)))"
    using step o by (cases w') simp_all
next
  assume "daemon_should_run s"
  then show "daemon_step env name tty (Looping d, s) =
            (Looping d, emit (Process_one_command (fileno d))
                          (call_void (process_one_command env (fileno d)) s))"
    by simp
next
  assume a: "\<not> daemon_should_run s"
  then show "fst (daemon_step env name tty (Looping d, s)) = Returned 0"
    by (simp add: Let_def)
  from a show "\<not> daemon_running (snd (daemon_step env name tty (Looping d, s)))"
    by (simp add: Let_def)
qed

theorem daemon_running_only_with_open_handle_witness:
  "\<not> daemon_running (test_state True False)
   \<and> fst (daemon_run (test_env 3 True True test_response 0) ''mobile'' ''/dev/ttyS2''
            [None, None, None] (Entry, test_state True False)) = Looping \<lparr>fd = 3\<rparr>
   \<and> daemon_running (snd (daemon_run (test_env 3 True True test_response 0) ''mobile'' ''/dev/ttyS2''
            [None, None, None] (Entry, test_state True False)))
   \<and> fst (daemon_run (test_env 3 True True test_response 0) ''mobile'' ''/dev/ttyS2''
            [None, None, None, Some False] (Entry, test_state True False)) = Returned 0
   \<and> \<not> daemon_running (snd (daemon_run (test_env 3 True True test_response 0) ''mobile'' ''/dev/ttyS2''
            [None, None, None, Some False] (Entry, test_state True False)))
   \<and> fst (daemon_run (test_env 3 False True test_response 0) ''mobile'' ''/dev/ttyS2''
            [None, None] (Entry, test_state True False)) = Returned 1
   \<and> \<not> daemon_running (snd (daemon_run (test_env 3 False True test_response 0) ''mobile'' ''/dev/ttyS2''
            [None, None] (Entry, test_state True False)))
   \<and> last (trace (snd (daemon_run (test_env 3 False True test_response 0) ''mobile'' ''/dev/ttyS2''
            [None, None] (Entry, test_state True False)))) = Perror ''mobile'' 25
   \<and> daemon_step (test_env 3 False True test_response 0) ''mobile'' ''/dev/ttyS2''
        (Looping \<lparr>fd = 3\<rparr>, test_state True True) =
       (Looping \<lparr>fd = 3\<rparr>,
        (test_state True True)\<lparr>machine := 1, trace := [Process_one_command 3]\<rparr>)"
proof -
  have nr: "\<not> daemon_running (test_state True False)"
    by (simp add: test_state_def)
  note good_run = daemon_running_only_with_open_handle
    [OF nr, of "test_env 3 True True test_response 0" "''mobile''" "''/dev/ttyS2''"
       "[None, None, None]" None "[None]" None
       "snd (daemon_run (test_env 3 True True test_response 0) ''mobile'' ''/dev/ttyS2''
              [None, None, None] (Entry, test_state True False))\<lparr>daemon_should_run := False\<rparr>"
       "\<lparr>fd = 3\<rparr>"]
  note bad_run = daemon_running_only_with_open_handle
    [OF nr, of "test_env 3 False True test_response 0" "''mobile''" "''/dev/ttyS2''"
       "[None, None]" None "[None]" None
       "test_state True True" "\<lparr>fd = 3\<rparr>"]
  show ?thesis
    using good_run bad_run
    by (simp add: test_env_def test_state_def open_serial_def call_def call_void_def emit_def
        fileno_def close_file_def unique_file_destroy_def Let_def)
qed

subsection \<open>The maintenance gate\<close>

text \<open>
  C7. \<^verbatim>\<open>maintenance_allowed\<close> returns true exactly when \<^verbatim>\<open>daemon_running\<close> is false,
  whatever \<^verbatim>\<open>daemon_should_run\<close> is. While the daemon runs, the \<^verbatim>\<open>mode\<close>, \<^verbatim>\<open>at\<close>
  and \<^verbatim>\<open>firmware-version\<close> commands stop at the gate: they return 1 and have done nothing
  but print the gate's line.
\<close>

theorem maintenance_allowed_iff_not_running:
  "fst (maintenance_allowed st) = (\<not> daemon_running st)
   \<and> fst (maintenance_allowed (st\<lparr>daemon_should_run := b\<rparr>)) = fst (maintenance_allowed st)
   \<and> main env prog [''mode'', m] v4 (st\<lparr>daemon_running := True\<rparr>) =
       (1, emit (Fprintf_stderr ''Stop the daemon first.\<newline>'' []) (st\<lparr>daemon_running := True\<rparr>))
   \<and> main env prog (''at'' # tty # c # cs) v4 (st\<lparr>daemon_running := True\<rparr>) =
       (1, emit (Fprintf_stderr ''Stop the daemon first.\<newline>'' []) (st\<lparr>daemon_running := True\<rparr>))
   \<and> main env prog [''firmware-version'', tty] v4 (st\<lparr>daemon_running := True\<rparr>) =
       (1, emit (Fprintf_stderr ''Stop the daemon first.\<newline>'' []) (st\<lparr>daemon_running := True\<rparr>))
   \<and> main env prog [''firmware-version'', tty, x] v4 (st\<lparr>daemon_running := True\<rparr>) =
       (1, emit (Fprintf_stderr ''Stop the daemon first.\<newline>'' []) (st\<lparr>daemon_running := True\<rparr>))"
  by (simp add: main_def maintenance_allowed_def)

subsection \<open>The batch of AT commands\<close>

lemma exec_all_AT_loop_trace:
  "\<exists>rs. length rs \<le> length args
     \<and> trace (snd (exec_all_AT_loop env dev i args buf sz st)) = trace st @ batch_trace i args rs
     \<and> (\<forall>r\<in>set (butlast rs). r \<noteq> - 1)
     \<and> fst (fst (exec_all_AT_loop env dev i args buf sz st)) =
         (length rs = length args \<and> (\<forall>r\<in>set rs. r \<noteq> - 1))
     \<and> (\<not> fst (fst (exec_all_AT_loop env dev i args buf sz st)) \<longrightarrow> rs \<noteq> [] \<and> last rs = - 1)"
proof (induction args arbitrary: i buf st)
  case Nil
  show ?case
    by (rule exI [of _ "[]"]) simp
next
  case (Cons a rest)
  let ?st1 = "emit (Printf ''%i# '' [Arg_i i]) st"
  obtain r buf' st2 where c: "call (exec_AT_verbose env (fileno dev) a buf sz) ?st1 = ((r, buf'), st2)"
    by (metis surj_pair)
  let ?st3 = "emit (Exec_AT a r) st2"
  have tr: "trace ?st3 = trace st @ [Printf ''%i# '' [Arg_i i], Exec_AT a r]"
    using c by simp
  show ?case
  proof (cases "r = - 1")
    case True
    show ?thesis
      by (rule exI [of _ "[- 1]"]) (use c True tr in \<open>simp add: Let_def\<close>)
  next
    case False
    from Cons.IH [of "i + 1" buf' ?st3] obtain rs where rs:
      "length rs \<le> length rest"
      "trace (snd (exec_all_AT_loop env dev (i + 1) rest buf' sz ?st3)) =
         trace ?st3 @ batch_trace (i + 1) rest rs"
      "\<forall>r\<in>set (butlast rs). r \<noteq> - 1"
      "fst (fst (exec_all_AT_loop env dev (i + 1) rest buf' sz ?st3)) =
         (length rs = length rest \<and> (\<forall>r\<in>set rs. r \<noteq> - 1))"
      "\<not> fst (fst (exec_all_AT_loop env dev (i + 1) rest buf' sz ?st3)) \<longrightarrow> rs \<noteq> [] \<and> last rs = - 1"
      by blast
    have eq: "exec_all_AT_loop env dev i (a # rest) buf sz st =
                exec_all_AT_loop env dev (i + 1) rest buf' sz ?st3"
      using c False by (simp add: Let_def)
    show ?thesis
    proof (rule exI [of _ "r # rs"], intro conjI)
      show "length (r # rs) \<le> length (a # rest)"
        using rs(1) by simp
      show "trace (snd (exec_all_AT_loop env dev i (a # rest) buf sz st)) =
              trace st @ batch_trace i (a # rest) (r # rs)"
        unfolding eq rs(2) tr by simp
      show "\<forall>r\<in>set (butlast (r # rs)). r \<noteq> - 1"
        using rs(3) False by simp
      show "fst (fst (exec_all_AT_loop env dev i (a # rest) buf sz st)) =
              (length (r # rs) = length (a # rest) \<and> (\<forall>r\<in>set (r # rs). r \<noteq> - 1))"
        unfolding eq rs(4) using False by simp
      show "\<not> fst (fst (exec_all_AT_loop env dev i (a # rest) buf sz st)) \<longrightarrow>
              r # rs \<noteq> [] \<and> last (r # rs) = - 1"
        unfolding eq using rs(5) by simp
    qed
  qed
qed

lemma exec_all_AT_gate_cases:
  "(daemon_running st \<longrightarrow>
      exec_all_AT env devname arg buf sz st =
        ((False, buf), emit (Fprintf_stderr ''Stop the daemon first.\<newline>'' []) st))
   \<and> (\<not> daemon_running st \<and> fileno (fst (open_serial env devname st)) = - 1 \<longrightarrow>
        exec_all_AT env devname arg buf sz st = ((False, buf), snd (open_serial env devname st)))
   \<and> (\<not> daemon_running st \<and> fileno (fst (open_serial env devname st)) \<noteq> - 1 \<longrightarrow>
        (\<exists>rs. length rs \<le> length arg
           \<and> trace (snd (exec_all_AT env devname arg buf sz st)) =
               trace (snd (open_serial env devname st)) @ batch_trace 0 arg rs
                 @ [Close (fileno (fst (open_serial env devname st)))]
           \<and> (\<forall>r\<in>set (butlast rs). r \<noteq> - 1)
           \<and> fst (fst (exec_all_AT env devname arg buf sz st)) =
               (length rs = length arg \<and> (\<forall>r\<in>set rs. r \<noteq> - 1))
           \<and> (\<not> fst (fst (exec_all_AT env devname arg buf sz st)) \<longrightarrow> rs \<noteq> [] \<and> last rs = - 1)))"
proof (intro conjI impI)
  assume "daemon_running st"
  then show "exec_all_AT env devname arg buf sz st =
               ((False, buf), emit (Fprintf_stderr ''Stop the daemon first.\<newline>'' []) st)"
    by (simp add: exec_all_AT_def maintenance_allowed_def)
next
  assume a: "\<not> daemon_running st \<and> fileno (fst (open_serial env devname st)) = - 1"
  obtain serial st2 where o: "open_serial env devname st = (serial, st2)"
    by (cases "open_serial env devname st")
  with a have "fd serial = - 1"
    by (simp add: fileno_def)
  with a o show "exec_all_AT env devname arg buf sz st = ((False, buf), snd (open_serial env devname st))"
    by (simp add: exec_all_AT_def maintenance_allowed_def unique_file_destroy_def close_file_def
        fileno_def)
next
  assume a: "\<not> daemon_running st \<and> fileno (fst (open_serial env devname st)) \<noteq> - 1"
  obtain serial st2 where o: "open_serial env devname st = (serial, st2)"
    by (cases "open_serial env devname st")
  let ?L = "exec_all_AT_loop env serial 0 arg buf sz st2"
  have e: "exec_all_AT env devname arg buf sz st = (fst ?L, unique_file_destroy env serial (snd ?L))"
    using a o by (simp add: exec_all_AT_def maintenance_allowed_def split: prod.splits)
  have d: "trace (unique_file_destroy env serial (snd ?L)) = trace (snd ?L) @ [Close (fileno serial)]"
    using a o by (simp add: unique_file_destroy_def close_file_def fileno_def)
  from exec_all_AT_loop_trace [of arg env serial 0 buf sz st2] obtain rs where rs:
    "length rs \<le> length arg"
    "trace (snd ?L) = trace st2 @ batch_trace 0 arg rs"
    "\<forall>r\<in>set (butlast rs). r \<noteq> - 1"
    "fst (fst ?L) = (length rs = length arg \<and> (\<forall>r\<in>set rs. r \<noteq> - 1))"
    "\<not> fst (fst ?L) \<longrightarrow> rs \<noteq> [] \<and> last rs = - 1"
    by blast
  show "\<exists>rs. length rs \<le> length arg
           \<and> trace (snd (exec_all_AT env devname arg buf sz st)) =
               trace (snd (open_serial env devname st)) @ batch_trace 0 arg rs
                 @ [Close (fileno (fst (open_serial env devname st)))]
           \<and> (\<forall>r\<in>set (butlast rs). r \<noteq> - 1)
           \<and> fst (fst (exec_all_AT env devname arg buf sz st)) =
               (length rs = length arg \<and> (\<forall>r\<in>set rs. r \<noteq> - 1))
           \<and> (\<not> fst (fst (exec_all_AT env devname arg buf sz st)) \<longrightarrow> rs \<noteq> [] \<and> last rs = - 1)"
    by (rule exI [of _ rs]) (use rs in \<open>simp add: e d o\<close>)
qed


lemma batch_events_batch_trace: "batch_events (batch_trace i cs rs) = batch_trace i cs rs"
  by (induction i cs rs rule: batch_trace.induct) (simp_all add: batch_events_def)

lemma open_serial_batch_events:
  "batch_events (trace (snd (open_serial env name st))) = batch_events (trace st)"
proof -
  obtain fd0 st1 where a: "call (tty_open env name) st = (fd0, st1)"
    by (cases "call (tty_open env name) st")
  obtain s_ok st2 where b: "call (tty_set_speed env fd0 B9600) st1 = (s_ok, st2)"
    by (cases "call (tty_set_speed env fd0 B9600) st1")
  obtain c_ok st3 where c: "call (tty_use_ctsrts env fd0) st2 = (c_ok, st3)"
    by (cases "call (tty_use_ctsrts env fd0) st2")
  note f = call_flags(3) [OF a] call_flags(3) [OF b] call_flags(3) [OF c]
  show ?thesis
    using a b c f
    by (simp add: open_serial_def fileno_def Let_def case_prod_beta close_file_def batch_events_def)
qed

text \<open>
  C4. For every batch given to \<^verbatim>\<open>exec_all_AT\<close> (its callers hand it at least one
  command), in every state and on every machine: the commands that execute do so in
  order from the first, each once and each after its 0-based index was printed; a
  command that returns -1 is the last one executed, so nothing runs after it and
  nothing is retried; and the batch returns success exactly when every command executed
  and none returned -1. No command at all executes exactly when the daemon runs or the
  device does not open, and then the batch fails.
\<close>

theorem exec_all_AT_fail_fast:
  assumes "arg \<noteq> []"
  shows "\<exists>rs. length rs \<le> length arg
     \<and> batch_events (trace (snd (exec_all_AT env devname arg buf sz st))) =
         batch_events (trace st) @ batch_trace 0 arg rs
     \<and> (\<forall>r\<in>set (butlast rs). r \<noteq> - 1)
     \<and> fst (fst (exec_all_AT env devname arg buf sz st)) =
         (length rs = length arg \<and> (\<forall>r\<in>set rs. r \<noteq> - 1))
     \<and> (rs = []) = (daemon_running st \<or> fileno (fst (open_serial env devname st)) = - 1)"
proof -
  let ?R = "exec_all_AT env devname arg buf sz st"
  let ?o = "open_serial env devname st"
  note g = exec_all_AT_gate_cases [of st env devname arg buf sz]
  consider (running) "daemon_running st"
    | (closed) "\<not> daemon_running st" "fileno (fst ?o) = - 1"
    | (opened) "\<not> daemon_running st" "fileno (fst ?o) \<noteq> - 1"
    by blast
  then show ?thesis
  proof cases
    case running
    with g have "?R = ((False, buf), emit (Fprintf_stderr ''Stop the daemon first.\<newline>'' []) st)"
      by blast
    with running assms show ?thesis
      by (intro exI [of _ "[]"]) (simp add: batch_events_def)
  next
    case closed
    with g have "?R = ((False, buf), snd ?o)"
      by blast
    with closed assms show ?thesis
      by (intro exI [of _ "[]"]) (simp add: open_serial_batch_events)
  next
    case opened
    with g obtain rs where rs:
      "length rs \<le> length arg"
      "trace (snd ?R) = trace (snd ?o) @ batch_trace 0 arg rs @ [Close (fileno (fst ?o))]"
      "\<forall>r\<in>set (butlast rs). r \<noteq> - 1"
      "fst (fst ?R) = (length rs = length arg \<and> (\<forall>r\<in>set rs. r \<noteq> - 1))"
      "\<not> fst (fst ?R) \<longrightarrow> rs \<noteq> [] \<and> last rs = - 1"
      by blast
    have ne: "rs \<noteq> []"
      using rs(4,5) assms by (cases "fst (fst ?R)") auto
    have "batch_events (trace (snd ?R)) = batch_events (trace st) @ batch_trace 0 arg rs"
      unfolding rs(2)
      using open_serial_batch_events [of env devname st] batch_events_batch_trace [of 0 arg rs]
      by (simp add: batch_events_def)
    with rs(1,3,4) ne opened show ?thesis
      by (intro exI [of _ rs]) simp
  qed
qed

theorem exec_all_AT_fail_fast_witness:
  "[''AT'', ''AT+BAD'', ''AT I 3''] \<noteq> []
   \<and> (\<exists>rs. length rs \<le> length [''AT'', ''AT+BAD'', ''AT I 3'']
     \<and> batch_events (trace (snd (exec_all_AT (test_env 3 True True test_response 0) ''/dev/ttyS2''
                                    [''AT'', ''AT+BAD'', ''AT I 3''] [] 0 (test_state True False)))) =
         batch_events (trace (test_state True False)) @ batch_trace 0 [''AT'', ''AT+BAD'', ''AT I 3''] rs
     \<and> (\<forall>r\<in>set (butlast rs). r \<noteq> - 1)
     \<and> fst (fst (exec_all_AT (test_env 3 True True test_response 0) ''/dev/ttyS2''
                    [''AT'', ''AT+BAD'', ''AT I 3''] [] 0 (test_state True False))) =
         (length rs = length [''AT'', ''AT+BAD'', ''AT I 3''] \<and> (\<forall>r\<in>set rs. r \<noteq> - 1))
     \<and> (rs = []) =
         (daemon_running (test_state True False)
          \<or> fileno (fst (open_serial (test_env 3 True True test_response 0) ''/dev/ttyS2''
                            (test_state True False))) = - 1))
   \<and> exec_all_AT (test_env 3 True True test_response 0) ''/dev/ttyS2''
        [''AT'', ''AT+BAD'', ''AT I 3''] [] 0 (test_state True False) =
       ((False, []),
        (test_state True False)
          \<lparr>machine := 2,
           trace := [Printf ''%i# '' [Arg_i 0], Exec_AT ''AT'' 2,
                     Printf ''%i# '' [Arg_i 1], Exec_AT ''AT+BAD'' (- 1), Close 3],
           errno := 9\<rparr>)
   \<and> exec_all_AT (test_env 3 True True test_response 0) ''/dev/ttyS2''
        [''AT'', ''AT I 3''] [] 0 (test_state True False) =
       ((True, ''OK''),
        (test_state True False)
          \<lparr>machine := 2,
           trace := [Printf ''%i# '' [Arg_i 0], Exec_AT ''AT'' 2,
                     Printf ''%i# '' [Arg_i 1], Exec_AT ''AT I 3'' 2, Close 3],
           errno := 9\<rparr>)
   \<and> exec_all_AT (test_env 3 True True test_response 0) ''/dev/ttyS2''
        [''AT'', ''AT+BAD'', ''AT I 3''] [] 0 (test_state True True) =
       ((False, []), emit (Fprintf_stderr ''Stop the daemon first.\<newline>'' []) (test_state True True))
   \<and> exec_all_AT (test_env (- 1) True True test_response 0) ''/dev/ttyS2''
        [''AT'', ''AT+BAD'', ''AT I 3''] [] 0 (test_state True False) =
       ((False, []), (test_state True False)\<lparr>errno := 2\<rparr>)"
proof -
  let ?env = "test_env 3 True True test_response 0"
  let ?st = "test_state True False"
  have ne: "[''AT'', ''AT+BAD'', ''AT I 3''] \<noteq> []"
    by simp
  have o: "open_serial ?env ''/dev/ttyS2'' ?st = (\<lparr>fd = 3\<rparr>, ?st)"
    by (simp add: open_serial_def test_env_def test_state_def call_def fileno_def)
  have t: "exec_all_AT ?env ''/dev/ttyS2'' [''AT'', ''AT+BAD'', ''AT I 3''] [] 0 ?st =
       ((False, []),
        ?st\<lparr>machine := 2,
            trace := [Printf ''%i# '' [Arg_i 0], Exec_AT ''AT'' 2,
                      Printf ''%i# '' [Arg_i 1], Exec_AT ''AT+BAD'' (- 1), Close 3],
            errno := 9\<rparr>)"
    by (simp add: exec_all_AT_def maintenance_allowed_def o fileno_def unique_file_destroy_def
        close_file_def)
       (simp add: test_env_def test_state_def test_response_def call_def call_void_def emit_def Let_def)
  have t2: "exec_all_AT ?env ''/dev/ttyS2'' [''AT'', ''AT I 3''] [] 0 ?st =
       ((True, ''OK''),
        ?st\<lparr>machine := 2,
            trace := [Printf ''%i# '' [Arg_i 0], Exec_AT ''AT'' 2,
                      Printf ''%i# '' [Arg_i 1], Exec_AT ''AT I 3'' 2, Close 3],
            errno := 9\<rparr>)"
    by (simp add: exec_all_AT_def maintenance_allowed_def o fileno_def unique_file_destroy_def
        close_file_def)
       (simp add: test_env_def test_state_def test_response_def call_def call_void_def emit_def Let_def)
  have g1: "exec_all_AT ?env ''/dev/ttyS2'' [''AT'', ''AT+BAD'', ''AT I 3''] [] 0 (test_state True True) =
       ((False, []), emit (Fprintf_stderr ''Stop the daemon first.\<newline>'' []) (test_state True True))"
    by (simp add: exec_all_AT_def maintenance_allowed_def test_state_def)
  have g2: "exec_all_AT (test_env (- 1) True True test_response 0) ''/dev/ttyS2''
              [''AT'', ''AT+BAD'', ''AT I 3''] [] 0 ?st = ((False, []), ?st\<lparr>errno := 2\<rparr>)"
    by (simp add: exec_all_AT_def maintenance_allowed_def open_serial_def test_env_def test_state_def
        call_def call_void_def fileno_def close_file_def unique_file_destroy_def Let_def)
  note ex = exec_all_AT_fail_fast [OF ne, of ?env "''/dev/ttyS2''" "[]" 0 ?st]
  show ?thesis
    by (intro conjI) (rule ne, rule ex, rule t, rule t2, rule g1, rule g2)
qed

subsection \<open>The firmware check\<close>











subsection \<open>Starting the daemon\<close>

text \<open>
  C5, as the code has it. \<^verbatim>\<open>start\<close> is rejected while \<^verbatim>\<open>daemon_running\<close> is true, and
  then nothing is spawned and the flags stay as they are. Otherwise
  \<^verbatim>\<open>daemon_should_run\<close> is set and \<^verbatim>\<open>task_spawn_cmd\<close> is called with the device path.
  If the spawn fails, its error is reported and -1 returned, \<^verbatim>\<open>daemon_running\<close> is
  unchanged, and \<^verbatim>\<open>daemon_should_run\<close> stays set.
\<close>

theorem start_rejected_or_spawned:
  "(daemon_running st \<longrightarrow>
      main env prog [''start'', tty] v4 st =
        (1, emit (Fprintf_stderr ''%s is already running.\<newline>'' [Arg_s prog]) st))
   \<and> (\<not> daemon_running st \<longrightarrow>
        main env prog [''start'', tty] v4 st =
          (if fst (call (task_spawn_cmd env prog [tty]) (st\<lparr>daemon_should_run := True\<rparr>)) = - 1
           then (- 1,
                 emit (Perror ''task_spawn_cmd''
                         (errno (snd (call (task_spawn_cmd env prog [tty]) (st\<lparr>daemon_should_run := True\<rparr>)))))
                   (emit (Task_spawn prog [tty] (- 1))
                      (snd (call (task_spawn_cmd env prog [tty]) (st\<lparr>daemon_should_run := True\<rparr>)))))
           else (0,
                 emit (Task_spawn prog [tty]
                         (fst (call (task_spawn_cmd env prog [tty]) (st\<lparr>daemon_should_run := True\<rparr>))))
                   (snd (call (task_spawn_cmd env prog [tty]) (st\<lparr>daemon_should_run := True\<rparr>)))))
        \<and> daemon_should_run (snd (main env prog [''start'', tty] v4 st))
        \<and> \<not> daemon_running (snd (main env prog [''start'', tty] v4 st)))"
proof (intro conjI impI)
  assume "daemon_running st"
  then show "main env prog [''start'', tty] v4 st =
               (1, emit (Fprintf_stderr ''%s is already running.\<newline>'' [Arg_s prog]) st)"
    by (simp add: main_def)
next
  assume nr: "\<not> daemon_running st"
  obtain r st2 where c: "call (task_spawn_cmd env prog [tty]) (st\<lparr>daemon_should_run := True\<rparr>) = (r, st2)"
    by (cases "call (task_spawn_cmd env prog [tty]) (st\<lparr>daemon_should_run := True\<rparr>)")
  have m: "main env prog [''start'', tty] v4 st =
             (if r = - 1 then (- 1, emit (Perror ''task_spawn_cmd'' (errno st2)) (emit (Task_spawn prog [tty] r) st2))
              else (0, emit (Task_spawn prog [tty] r) st2))"
    using nr c by (simp add: main_def Let_def)
  from m c show "main env prog [''start'', tty] v4 st =
          (if fst (call (task_spawn_cmd env prog [tty]) (st\<lparr>daemon_should_run := True\<rparr>)) = - 1
           then (- 1,
                 emit (Perror ''task_spawn_cmd''
                         (errno (snd (call (task_spawn_cmd env prog [tty]) (st\<lparr>daemon_should_run := True\<rparr>)))))
                   (emit (Task_spawn prog [tty] (- 1))
                      (snd (call (task_spawn_cmd env prog [tty]) (st\<lparr>daemon_should_run := True\<rparr>)))))
           else (0,
                 emit (Task_spawn prog [tty]
                         (fst (call (task_spawn_cmd env prog [tty]) (st\<lparr>daemon_should_run := True\<rparr>))))
                   (snd (call (task_spawn_cmd env prog [tty]) (st\<lparr>daemon_should_run := True\<rparr>)))))"
    by simp
  have f: "daemon_should_run st2" "\<not> daemon_running st2"
    using call_flags [OF c] nr by simp_all
  from m f show "daemon_should_run (snd (main env prog [''start'', tty] v4 st))"
    by simp
  from m f show "\<not> daemon_running (snd (main env prog [''start'', tty] v4 st))"
    by simp
qed

theorem start_rejected_or_spawned_witness:
  "main (test_env 3 True True test_response 7) ''mobile'' [''start'', ''/dev/ttyS2''] [0, 0, 0, 0]
     (test_state True True) =
     (1, emit (Fprintf_stderr ''%s is already running.\<newline>'' [Arg_s ''mobile'']) (test_state True True))
   \<and> main (test_env 3 True True test_response (- 1)) ''mobile'' [''start'', ''/dev/ttyS2''] [0, 0, 0, 0]
       (test_state False False) =
       (- 1, (test_state True False)
               \<lparr>errno := 12,
                trace := [Task_spawn ''mobile'' [''/dev/ttyS2''] (- 1), Perror ''task_spawn_cmd'' 12]\<rparr>)
   \<and> main (test_env 3 True True test_response 7) ''mobile'' [''start'', ''/dev/ttyS2''] [0, 0, 0, 0]
       (test_state False False) =
       (0, (test_state True False)\<lparr>trace := [Task_spawn ''mobile'' [''/dev/ttyS2''] 7]\<rparr>)"
  using start_rejected_or_spawned
          [of "test_state True True" "test_env 3 True True test_response 7" "''mobile''" "''/dev/ttyS2''"
              "[0, 0, 0, 0]"]
        start_rejected_or_spawned
          [of "test_state False False" "test_env 3 True True test_response (- 1)" "''mobile''"
              "''/dev/ttyS2''" "[0, 0, 0, 0]"]
        start_rejected_or_spawned
          [of "test_state False False" "test_env 3 True True test_response 7" "''mobile''"
              "''/dev/ttyS2''" "[0, 0, 0, 0]"]
  by (simp add: test_env_def test_state_def call_def emit_def)

text \<open>
  C5 as stated fails: a failed spawn does not leave the state unchanged.
  \<^verbatim>\<open>daemon_should_run\<close> was false before and is true afterwards.
\<close>

theorem start_spawn_failure_changes_state_counterexample:
  "\<not> daemon_should_run (test_state False False)
   \<and> fst (main (test_env 3 True True test_response (- 1)) ''mobile'' [''start'', ''/dev/ttyS2'']
             [0, 0, 0, 0] (test_state False False)) = - 1
   \<and> daemon_should_run
        (snd (main (test_env 3 True True test_response (- 1)) ''mobile'' [''start'', ''/dev/ttyS2'']
                [0, 0, 0, 0] (test_state False False)))"
  by (simp add: main_def test_env_def test_state_def call_def emit_def Let_def)

end
